theory Spec2Isabelle
  imports Complex_Main
begin

section \<open>The Seinfeld API server (index.js), embedded in HOL\<close>

text \<open>
  The program is one JavaScript module: three module-level tables filled once by
  \<^verbatim>\<open>loadData\<close>, a few helpers, one handler per resource and the dispatcher
  \<^verbatim>\<open>handleRequest\<close>. The embedding follows the module top to bottom.

  Conventions of the embedding.
  \<^item> A JavaScript string is a list of code units; only code units below 256 occur
    (\<^typ>\<open>char\<close> has 8 bits), read as Latin-1.
  \<^item> A number of the data is an integer (\<open>id\<close>, \<open>season\<close>), modelled as \<^typ>\<open>int\<close>:
    \<open>JNum n\<close> is the double whose value is \<open>n\<close>. What \<^verbatim>\<open>parseInt\<close> returns is rounded
    to a double as JavaScript rounds it; \<open>NaN\<close> and the infinities are written out where
    the program can produce them. Numbers with a fraction, and the infinities that
    \<^verbatim>\<open>JSON.parse\<close> makes of literals beyond the doubles, are not in the embedding.
  \<^item> A thrown exception is the left summand of the result; nothing in the module catches
    one, so it leaves \<^verbatim>\<open>handleRequest\<close>.
  \<^item> The response object \<^verbatim>\<open>res\<close> is written once per request (\<^verbatim>\<open>writeHead\<close>
    then \<^verbatim>\<open>end\<close>); the model returns what was written.
  \<^item> The calls into the platform are inputs: a request carries what \<^verbatim>\<open>url.parse\<close> does on
    its URL (an exception, or a parsed URL whose path name may be \<^verbatim>\<open>null\<close>), and the value
    of \<^verbatim>\<open>Math.random()\<close> is an argument.
  \<^item> Limits of the engine (the number of arguments a spread call may pass, memory) are
    not part of the embedding.
\<close>

subsection \<open>Values\<close>

text \<open>
  What \<^verbatim>\<open>JSON.parse\<close> produces. An object is the list of its own properties in
  enumeration order (the order \<^verbatim>\<open>Object.values\<close> and the spread follow).
\<close>

datatype json =
    JNull
  | JBool bool
  | JNum int
  | JStr string
  | JArr "json list"
  | JObj "(string \<times> json) list"

type_synonym obj = "(string \<times> json) list"

text \<open>A table is an array of records (objects), as the three JSON files hold them.\<close>

type_synonym table = "obj list"

text \<open>
  The exceptions that can leave the module; \<open>URIError\<close> is one \<^verbatim>\<open>url.parse\<close> may
  throw. \<open>Unmodelled\<close> is not an exception of the program: it marks the one place where the
  embedding stops, the conversion of a string, array or object to a number inside
  \<^verbatim>\<open>Math.max\<close>, which needs floating-point literals. No statement below is about a run
  that ends there.
\<close>

datatype exn = TypeError | ReferenceError | URIError | Unmodelled

text \<open>
  The number values the program computes with, beside the integers of the data:
  \<^verbatim>\<open>parseInt\<close> and \<^verbatim>\<open>Math.max\<close> can return \<open>NaN\<close> and the infinities.
\<close>

datatype jsnum = NaN | NegInfinity | Infinity | Finite int

text \<open>Property read \<^verbatim>\<open>o.k\<close> on a record: \<open>None\<close> is \<^verbatim>\<open>undefined\<close>.\<close>

definition getprop :: "obj \<Rightarrow> string \<Rightarrow> json option" where
  "getprop ob k = map_of ob k"

subsection \<open>Strings: toLowerCase, includes, split\<close>

text \<open>
  \<^verbatim>\<open>String.prototype.toLowerCase\<close> on code units below 256: the letters A to Z and the
  Latin-1 capitals from 192 to 222 except the multiplication sign 215 move up by 32.
\<close>

definition lower_char :: "char \<Rightarrow> char" where
  "lower_char c =
     (let n = (of_char c :: nat)
      in if (65 \<le> n \<and> n \<le> 90) \<or> (192 \<le> n \<and> n \<le> 222 \<and> n \<noteq> 215)
         then char_of (n + 32) else c)"

definition toLowerCase :: "string \<Rightarrow> string" where
  "toLowerCase s = map lower_char s"

fun startsWith :: "string \<Rightarrow> string \<Rightarrow> bool" where
  "startsWith s [] = True"
| "startsWith [] (c # t) = False"
| "startsWith (a # s) (c # t) = (a = c \<and> startsWith s t)"

text \<open>\<^verbatim>\<open>s.includes(t)\<close>: \<open>t\<close> occurs in \<open>s\<close> at some position.\<close>

fun str_includes :: "string \<Rightarrow> string \<Rightarrow> bool" where
  "str_includes [] t = (t = [])"
| "str_includes (a # s) t = (startsWith (a # s) t \<or> str_includes s t)"

text \<open>\<^verbatim>\<open>s.split(sep)\<close> for a one-character separator.\<close>

fun str_split :: "char \<Rightarrow> string \<Rightarrow> string list" where
  "str_split sep [] = [[]]"
| "str_split sep (c # cs) =
     (if c = sep then [] # str_split sep cs
      else (case str_split sep cs of
              [] \<Rightarrow> [[c]]
            | p # ps \<Rightarrow> (c # p) # ps))"

subsection \<open>Numbers: parseInt and Number.prototype.toString\<close>

text \<open>White space that \<^verbatim>\<open>parseInt\<close> skips, among the code units below 256.\<close>

definition is_white :: "char \<Rightarrow> bool" where
  "is_white c = ((of_char c :: nat) \<in> {9, 10, 11, 12, 13, 32, 160})"

text \<open>The value of a digit or letter as a digit, if it is one.\<close>

definition digit_val :: "char \<Rightarrow> nat option" where
  "digit_val c =
     (let n = (of_char c :: nat)
      in if 48 \<le> n \<and> n \<le> 57 then Some (n - 48)
         else if 97 \<le> n \<and> n \<le> 122 then Some (n - 87)
         else if 65 \<le> n \<and> n \<le> 90 then Some (n - 55)
         else None)"

definition is_digit :: "nat \<Rightarrow> char \<Rightarrow> bool" where
  "is_digit R c = (case digit_val c of None \<Rightarrow> False | Some d \<Rightarrow> d < R)"

definition digits_value :: "nat \<Rightarrow> string \<Rightarrow> int" where
  "digits_value R z = foldl (\<lambda>acc c. acc * int R + int (the (digit_val c))) 0 z"

text \<open>The number of binary digits of a positive integer.\<close>

function bit_length :: "int \<Rightarrow> nat" where
  "bit_length n = (if n \<le> 0 then 0 else Suc (bit_length (n div 2)))"
  by pat_completeness auto
termination
  by (relation "measure nat") auto

declare bit_length.simps [simp del]

text \<open>
  The Number value of an integer that is not negative: the nearest double, ties to the
  even significand of 53 bits. Below \<open>2^53\<close> every such integer is a double. A result of
  \<open>2^1024\<close> or more is beyond the doubles and stands for \<open>Infinity\<close>, here \<open>None\<close>.
\<close>

definition number_value :: "int \<Rightarrow> int option" where
  "number_value n =
     (if n < 2 ^ 53 then Some n
      else
        (let e = bit_length n - 53;
             q = n div 2 ^ e;
             r = n mod 2 ^ e;
             half = 2 ^ (e - 1);
             q' = (if half < r \<or> (r = half \<and> odd q) then q + 1 else q);
             v = q' * 2 ^ e
         in if v < 2 ^ 1024 then Some v else None))"

definition number_of :: "bool \<Rightarrow> int \<Rightarrow> jsnum" where
  "number_of neg m =
     (case number_value m of
        None \<Rightarrow> (if neg then NegInfinity else Infinity)
      | Some v \<Rightarrow> Finite ((if neg then - 1 else 1) * v))"

text \<open>
  \<^verbatim>\<open>parseInt(str)\<close> with no radix, step by step as ECMAScript defines it: skip leading
  white space, take a sign, take a \<open>0x\<close> or \<open>0X\<close> prefix (radix 16, else 10), read the
  longest run of digits of the radix, ignore the rest. No digit gives \<open>NaN\<close>; otherwise
  the result is the Number value of the signed integer the digits denote. (ECMAScript lets
  an implementation drop decimal digits after the twentieth; Node's engine keeps them, and
  so does the embedding.)
\<close>

definition parseInt :: "string \<Rightarrow> jsnum" where
  "parseInt str =
     (let s = dropWhile is_white str;
          neg = (s \<noteq> [] \<and> hd s = CHR ''-'');
          s1 = (if s \<noteq> [] \<and> (hd s = CHR ''-'' \<or> hd s = CHR ''+'') then tl s else s);
          hex = (take 2 s1 = ''0x'' \<or> take 2 s1 = ''0X'');
          s2 = (if hex then drop 2 s1 else s1);
          R = (if hex then 16 else 10);
          z = takeWhile (is_digit R) s2
      in if z = [] then NaN else number_of neg (digits_value R z))"

text \<open>
  \<^verbatim>\<open>Number.prototype.toString\<close> on an integer: its decimal digits, most significant first,
  after a minus sign when negative. This is what JavaScript prints for the safe integers,
  those of magnitude below \<open>2^53\<close>; larger numbers are printed with fewer digits or an
  exponent, which the embedding does not follow (see \<open>exact_numbers\<close> below).
\<close>

fun digits_of :: "nat \<Rightarrow> string" where
  "digits_of n =
     (if n < 10 then [char_of (48 + n)]
      else digits_of (n div 10) @ [char_of (48 + n mod 10)])"

declare digits_of.simps [simp del]

definition num_toString :: "int \<Rightarrow> string" where
  "num_toString n = (if n < 0 then CHR ''-'' # digits_of (nat (- n)) else digits_of (nat n))"

subsection \<open>value.toString()\<close>

definition join_comma :: "string list \<Rightarrow> string" where
  "join_comma ss = concat (case ss of [] \<Rightarrow> [] | s # rest \<Rightarrow> s # map (\<lambda>t. CHR '','' # t) rest)"

text \<open>Running a list of fallible computations in order; the first exception wins.\<close>

fun sequence :: "(exn + 'a) list \<Rightarrow> exn + 'a list" where
  "sequence [] = Inr []"
| "sequence (r # rs) =
     (case r of
        Inl e \<Rightarrow> Inl e
      | Inr x \<Rightarrow> (case sequence rs of Inl e \<Rightarrow> Inl e | Inr xs \<Rightarrow> Inr (x # xs)))"

text \<open>
  The abstract operation \<open>ToString\<close> of ECMAScript on a parsed JSON value. An array
  joins its elements with commas, \<^verbatim>\<open>null\<close> elements as the empty string. A plain
  object gives \<^verbatim>\<open>[object Object]\<close>, unless it has an own property \<open>toString\<close>: that shadows
  \<^verbatim>\<open>Object.prototype.toString\<close> with a value that is not a function, and the conversion
  throws.
\<close>

fun ToString :: "json \<Rightarrow> exn + string" where
  "ToString JNull = Inr ''null''"
| "ToString (JBool b) = Inr (if b then ''true'' else ''false'')"
| "ToString (JNum n) = Inr (num_toString n)"
| "ToString (JStr s) = Inr s"
| "ToString (JArr xs) =
     (case sequence (map (\<lambda>v. if v = JNull then Inr [] else ToString v) xs) of
        Inl e \<Rightarrow> Inl e
      | Inr ss \<Rightarrow> Inr (join_comma ss))"
| "ToString (JObj kvs) =
     (if ''toString'' \<in> fst ` set kvs then Inl TypeError else Inr ''[object Object]'')"

text \<open>
  The method call \<^verbatim>\<open>value.toString()\<close>: \<^verbatim>\<open>null\<close> has no properties, so the call throws;
  every other value inherits (or shadows) \<open>toString\<close> and converts as above.
\<close>

definition toString :: "json \<Rightarrow> exn + string" where
  "toString value = (case value of JNull \<Rightarrow> Inl TypeError | _ \<Rightarrow> ToString value)"

subsection \<open>Query parameters\<close>

text \<open>
  \<^verbatim>\<open>url.parse(req.url, true).query\<close>: a key maps to a string, or to an array of strings
  when the key is repeated in the URL. The object is the list of its properties.
\<close>

datatype qval = QStr string | QArr "string list"

type_synonym query = "(string \<times> qval) list"

definition param :: "query \<Rightarrow> string \<Rightarrow> qval option" where
  "param q k = map_of q k"

text \<open>Truthiness of \<^verbatim>\<open>query.k\<close>: false for \<^verbatim>\<open>undefined\<close> and the empty string.\<close>

fun truthy :: "qval option \<Rightarrow> bool" where
  "truthy None = False"
| "truthy (Some (QStr s)) = (s \<noteq> [])"
| "truthy (Some (QArr ss)) = True"

text \<open>\<^verbatim>\<open>q.toLowerCase()\<close> on a parameter: an array has no such method.\<close>

fun qval_toLowerCase :: "qval option \<Rightarrow> exn + string" where
  "qval_toLowerCase (Some (QStr s)) = Inr (toLowerCase s)"
| "qval_toLowerCase _ = Inl TypeError"

text \<open>\<open>ToString\<close> of a parameter, as \<^verbatim>\<open>parseInt\<close> applies it to its argument.\<close>

fun qval_ToString :: "qval option \<Rightarrow> string" where
  "qval_ToString None = ''undefined''"
| "qval_ToString (Some (QStr s)) = s"
| "qval_ToString (Some (QArr ss)) = join_comma ss"

subsection \<open>Helper functions of the module\<close>

text \<open>
  \<^verbatim>\<open>array.some(f)\<close> and \<^verbatim>\<open>array.filter(f)\<close> with a callback that may throw: elements
  are visited in order, \<open>some\<close> stops at the first \<open>true\<close>.
\<close>

fun some_exn :: "('a \<Rightarrow> exn + bool) \<Rightarrow> 'a list \<Rightarrow> exn + bool" where
  "some_exn f [] = Inr False"
| "some_exn f (x # xs) =
     (case f x of
        Inl e \<Rightarrow> Inl e
      | Inr b \<Rightarrow> if b then Inr True else some_exn f xs)"

fun filter_exn :: "('a \<Rightarrow> exn + bool) \<Rightarrow> 'a list \<Rightarrow> exn + 'a list" where
  "filter_exn f [] = Inr []"
| "filter_exn f (x # xs) =
     (case f x of
        Inl e \<Rightarrow> Inl e
      | Inr b \<Rightarrow>
          (case filter_exn f xs of
             Inl e \<Rightarrow> Inl e
           | Inr ys \<Rightarrow> Inr (if b then x # ys else ys)))"

text \<open>
  The callback of \<^verbatim>\<open>filterByQuery\<close> on one field value:
  \<^verbatim>\<open>value.toString().toLowerCase().includes(query.toLowerCase())\<close>, the receiver first,
  the argument second.
\<close>

definition value_matches :: "qval option \<Rightarrow> json \<Rightarrow> exn + bool" where
  "value_matches query value =
     (case toString value of
        Inl e \<Rightarrow> Inl e
      | Inr s \<Rightarrow>
          (case qval_toLowerCase query of
             Inl e \<Rightarrow> Inl e
           | Inr q \<Rightarrow> Inr (str_includes (toLowerCase s) q)))"

definition filterByQuery :: "table \<Rightarrow> qval option \<Rightarrow> exn + table" where
  "filterByQuery array query =
     (if \<not> truthy query then Inr array
      else filter_exn (\<lambda>item. some_exn (value_matches query) (map snd item)) array)"

text \<open>
  What \<^verbatim>\<open>sendJSON\<close> leaves in \<^verbatim>\<open>res\<close>: the status, the headers and the document that
  \<^verbatim>\<open>JSON.stringify\<close> printed. \<^verbatim>\<open>JSON.stringify(undefined)\<close> is \<^verbatim>\<open>undefined\<close>, and
  \<^verbatim>\<open>res.end(undefined)\<close> ends the response with no body: \<open>None\<close>.
\<close>

record response =
  status :: nat
  headers :: "(string \<times> string) list"
  body :: "json option"

definition cors_headers :: "(string \<times> string) list" where
  "cors_headers =
     [(''Access-Control-Allow-Origin'', ''*''),
      (''Access-Control-Allow-Methods'', ''GET, POST, PUT, DELETE, OPTIONS''),
      (''Access-Control-Allow-Headers'', ''Content-Type'')]"

definition sendJSON :: "json option \<Rightarrow> nat \<Rightarrow> response" where
  "sendJSON data statusCode =
     \<lparr>status = statusCode,
      headers = (''Content-Type'', ''application/json'') # cors_headers,
      body = data\<rparr>"

definition sendError :: "string \<Rightarrow> nat \<Rightarrow> response" where
  "sendError message statusCode = sendJSON (Some (JObj [(''error'', JStr message)])) statusCode"

text \<open>
  \<^verbatim>\<open>array[Math.floor(Math.random() * array.length)]\<close>, with the value \<open>u\<close> that
  \<^verbatim>\<open>Math.random()\<close> returned as an argument. An index outside the array reads
  \<^verbatim>\<open>undefined\<close>; on the empty array that is index 0. The product is taken exactly,
  where JavaScript rounds it to a double: the element picked may be a neighbour of the one
  the program picks, and the statements below use only whether an element is picked.
\<close>

definition getRandomItem :: "rat \<Rightarrow> 'a list \<Rightarrow> 'a option" where
  "getRandomItem u array =
     (let i = \<lfloor>u * of_nat (length array)\<rfloor>
      in if 0 \<le> i \<and> i < int (length array) then Some (array ! nat i) else None)"

subsection \<open>The module state and the route handlers\<close>

text \<open>
  The three module variables, as \<^verbatim>\<open>loadData\<close> left them. A handler receives them and
  hands them on; its result is the response written, or the exception thrown.
\<close>

record server =
  characters :: table
  episodes :: table
  quotes :: table

type_synonym result = "(exn + response) \<times> server"

definition respond :: "response \<Rightarrow> server \<Rightarrow> result" where
  "respond r s = (Inr r, s)"

definition throw :: "exn \<Rightarrow> server \<Rightarrow> result" where
  "throw e s = (Inl e, s)"

text \<open>
  \<^verbatim>\<open>c.id === id\<close> with \<open>id\<close> the result of \<^verbatim>\<open>parseInt\<close>: strict equality holds only
  between a number property and the same number; never for \<open>NaN\<close>, and never for an
  infinity, since the numbers of the data are integers.
\<close>

definition strict_eq_num :: "json option \<Rightarrow> jsnum \<Rightarrow> bool" where
  "strict_eq_num v id' = (case id' of Finite n \<Rightarrow> v = Some (JNum n) | _ \<Rightarrow> False)"

text \<open>
  \<^verbatim>\<open>x.toLowerCase()\<close> on a property value: only a string has the method; on
  \<^verbatim>\<open>undefined\<close>, \<^verbatim>\<open>null\<close> and every other value the call throws.
\<close>

fun prop_toLowerCase :: "json option \<Rightarrow> exn + string" where
  "prop_toLowerCase (Some (JStr s)) = Inr (toLowerCase s)"
| "prop_toLowerCase _ = Inl TypeError"

text \<open>
  The callback \<^verbatim>\<open>q.character.toLowerCase().includes(character.name.toLowerCase())\<close> of
  \<^verbatim>\<open>handleCharacters\<close>, with \<open>name\<close> the value of \<^verbatim>\<open>character.name\<close>.
\<close>

definition quote_of_character :: "json option \<Rightarrow> obj \<Rightarrow> exn + bool" where
  "quote_of_character name q =
     (case prop_toLowerCase (getprop q ''character'') of
        Inl e \<Rightarrow> Inl e
      | Inr qc \<Rightarrow>
          (case prop_toLowerCase name of
             Inl e \<Rightarrow> Inl e
           | Inr n \<Rightarrow> Inr (str_includes qc n)))"

text \<open>
  The object literal \<^verbatim>\<open>{ ...character, quotes: characterQuotes }\<close>: the properties of
  the record in order, then \<open>quotes\<close>, which replaces a property of that name in place.
\<close>

definition spread_with :: "obj \<Rightarrow> string \<Rightarrow> json \<Rightarrow> obj" where
  "spread_with ob k v =
     (if k \<in> fst ` set ob then map (\<lambda>(k', v'). if k' = k then (k', v) else (k', v')) ob
      else ob @ [(k, v)])"

definition list_body :: "string \<Rightarrow> table \<Rightarrow> json" where
  "list_body name filtered =
     JObj [(''total'', JNum (int (length filtered))), (name, JArr (map JObj filtered))]"

definition handleCharacters :: "rat \<Rightarrow> string list \<Rightarrow> query \<Rightarrow> server \<Rightarrow> result" where
  "handleCharacters u pathParts query s =
     (if length pathParts = 2 then
        (case filterByQuery (characters s) (param query ''search'') of
           Inl e \<Rightarrow> throw e s
         | Inr filtered \<Rightarrow> respond (sendJSON (Some (list_body ''characters'' filtered)) 200) s)
      else if length pathParts = 3 \<and> pathParts ! 2 = ''random'' then
        respond (sendJSON (map_option JObj (getRandomItem u (characters s))) 200) s
      else if length pathParts = 3 then
        (let id' = parseInt (pathParts ! 2);
             character = find (\<lambda>c. strict_eq_num (getprop c ''id'') id') (characters s)
         in case character of
              Some c \<Rightarrow>
                (case filter_exn (quote_of_character (getprop c ''name'')) (quotes s) of
                   Inl e \<Rightarrow> throw e s
                 | Inr characterQuotes \<Rightarrow>
                     respond (sendJSON
                       (Some (JObj (spread_with c ''quotes'' (JArr (map JObj characterQuotes)))))
                       200) s)
            | None \<Rightarrow> respond (sendError ''Character not found'' 404) s)
      else respond (sendError ''Invalid characters endpoint'' 404) s)"

definition handleEpisodes :: "rat \<Rightarrow> string list \<Rightarrow> query \<Rightarrow> server \<Rightarrow> result" where
  "handleEpisodes u pathParts query s =
     (if length pathParts = 2 then
        (let filtered =
               (if truthy (param query ''season'')
                then filter (\<lambda>ep. strict_eq_num (getprop ep ''season'')
                                     (parseInt (qval_ToString (param query ''season''))))
                            (episodes s)
                else episodes s)
         in case filterByQuery filtered (param query ''search'') of
              Inl e \<Rightarrow> throw e s
            | Inr filtered' \<Rightarrow> respond (sendJSON (Some (list_body ''episodes'' filtered')) 200) s)
      else if length pathParts = 3 \<and> pathParts ! 2 = ''random'' then
        respond (sendJSON (map_option JObj (getRandomItem u (episodes s))) 200) s
      else if length pathParts = 3 then
        (let id' = parseInt (pathParts ! 2);
             episode = find (\<lambda>ep. strict_eq_num (getprop ep ''id'') id') (episodes s)
         in case episode of
              Some ep \<Rightarrow> respond (sendJSON (Some (JObj ep)) 200) s
            | None \<Rightarrow> respond (sendError ''Episode not found'' 404) s)
      else respond (sendError ''Invalid episodes endpoint'' 404) s)"

text \<open>
  The callback \<^verbatim>\<open>q.character.toLowerCase().includes(query.character.toLowerCase())\<close> of
  \<^verbatim>\<open>handleQuotes\<close>.
\<close>

definition quote_by_param :: "qval option \<Rightarrow> obj \<Rightarrow> exn + bool" where
  "quote_by_param p q =
     (case prop_toLowerCase (getprop q ''character'') of
        Inl e \<Rightarrow> Inl e
      | Inr qc \<Rightarrow>
          (case qval_toLowerCase p of
             Inl e \<Rightarrow> Inl e
           | Inr n \<Rightarrow> Inr (str_includes qc n)))"

definition handleQuotes :: "rat \<Rightarrow> string list \<Rightarrow> query \<Rightarrow> server \<Rightarrow> result" where
  "handleQuotes u pathParts query s =
     (if length pathParts = 2 then
        (case (if truthy (param query ''character'')
               then filter_exn (quote_by_param (param query ''character'')) (quotes s)
               else Inr (quotes s)) of
           Inl e \<Rightarrow> throw e s
         | Inr filtered \<Rightarrow>
             (case filterByQuery filtered (param query ''search'') of
                Inl e \<Rightarrow> throw e s
              | Inr filtered' \<Rightarrow> respond (sendJSON (Some (list_body ''quotes'' filtered')) 200) s))
      else if length pathParts = 3 \<and> pathParts ! 2 = ''random'' then
        respond (sendJSON (map_option JObj (getRandomItem u (quotes s))) 200) s
      else if length pathParts = 3 then
        (let id' = parseInt (pathParts ! 2);
             quote = find (\<lambda>q. strict_eq_num (getprop q ''id'') id') (quotes s)
         in case quote of
              Some q \<Rightarrow> respond (sendJSON (Some (JObj q)) 200) s
            | None \<Rightarrow> respond (sendError ''Quote not found'' 404) s)
      else respond (sendError ''Invalid quotes endpoint'' 404) s)"

subsection \<open>Statistics\<close>

text \<open>
  \<open>ToNumber\<close> of a property value, as \<^verbatim>\<open>Math.max\<close> applies it: \<^verbatim>\<open>undefined\<close> is
  \<open>NaN\<close>, \<^verbatim>\<open>null\<close> is 0, a boolean is 0 or 1. A string, an array or an object would be
  read as a numeric literal, which the embedding does not follow.
\<close>

fun ToNumber :: "json option \<Rightarrow> exn + jsnum" where
  "ToNumber None = Inr NaN"
| "ToNumber (Some JNull) = Inr (Finite 0)"
| "ToNumber (Some (JBool b)) = Inr (Finite (if b then 1 else 0))"
| "ToNumber (Some (JNum n)) = Inr (Finite n)"
| "ToNumber (Some (JStr v)) = Inl Unmodelled"
| "ToNumber (Some (JArr v)) = Inl Unmodelled"
| "ToNumber (Some (JObj v)) = Inl Unmodelled"

text \<open>The comparison \<^verbatim>\<open>a < b\<close> of two numbers; it is false when one of them is \<open>NaN\<close>.\<close>

fun num_less :: "jsnum \<Rightarrow> jsnum \<Rightarrow> bool" where
  "num_less (Finite a) (Finite b) = (a < b)"
| "num_less (Finite a) Infinity = True"
| "num_less NegInfinity (Finite b) = True"
| "num_less NegInfinity Infinity = True"
| "num_less a b = False"

text \<open>
  \<^verbatim>\<open>Math.max\<close> on the converted arguments: it starts from \<open>-Infinity\<close>, returns \<open>NaN\<close> at
  the first \<open>NaN\<close>, and moves to each number that is greater than the highest so far.
\<close>

fun math_max_from :: "jsnum \<Rightarrow> jsnum list \<Rightarrow> jsnum" where
  "math_max_from highest [] = highest"
| "math_max_from highest (n # ns) =
     (if n = NaN then NaN
      else math_max_from (if num_less highest n then n else highest) ns)"

definition math_max :: "jsnum list \<Rightarrow> jsnum" where
  "math_max ns = math_max_from NegInfinity ns"

text \<open>\<^verbatim>\<open>JSON.stringify\<close> prints a number that is not finite as \<^verbatim>\<open>null\<close>.\<close>

fun stringify_num :: "jsnum \<Rightarrow> json" where
  "stringify_num (Finite n) = JNum n"
| "stringify_num _ = JNull"

definition handleStats :: "server \<Rightarrow> result" where
  "handleStats s =
     (case sequence (map (\<lambda>ep. ToNumber (getprop ep ''season'')) (episodes s)) of
        Inl e \<Rightarrow> throw e s
      | Inr seasons \<Rightarrow>
          respond (sendJSON (Some (JObj
            [(''totalCharacters'', JNum (int (length (characters s)))),
             (''totalEpisodes'', JNum (int (length (episodes s)))),
             (''totalQuotes'', JNum (int (length (quotes s)))),
             (''seasons'', stringify_num (math_max seasons)),
             (''apiVersion'', JStr ''1.0.0'')])) 200) s)"

subsection \<open>Catchphrases\<close>

text \<open>
  \<^verbatim>\<open>handleCatchphrases\<close> reads a variable \<open>catchphrases\<close> that the module never declares:
  evaluating it throws a \<open>ReferenceError\<close>. Only the last branch does not read it. No
  call of this function exists in the module.
\<close>

definition handleCatchphrases :: "rat \<Rightarrow> string list \<Rightarrow> query \<Rightarrow> server \<Rightarrow> result" where
  "handleCatchphrases u pathParts query s =
     (if length pathParts = 2 then throw ReferenceError s
      else if length pathParts = 3 \<and> pathParts ! 2 = ''random'' then throw ReferenceError s
      else if length pathParts = 3 then
        (let id' = parseInt (pathParts ! 2) in throw ReferenceError s)
      else respond (sendError ''Invalid catchphrases endpoint'' 404) s)"

subsection \<open>The dispatcher\<close>

text \<open>
  What \<^verbatim>\<open>url.parse(req.url, true)\<close> returns: the path name, \<^verbatim>\<open>null\<close> (here \<open>None\<close>)
  when the request target has none, and the query object.
\<close>

record parsed_url =
  pathname :: "string option"
  query :: query

text \<open>
  A request: \<^verbatim>\<open>req.method\<close>, and \<^verbatim>\<open>req.url\<close> given by what \<^verbatim>\<open>url.parse\<close> does on
  it, which is to throw or to return a parsed URL.
\<close>

record request =
  httpMethod :: string
  url_parse :: "exn + parsed_url"

definition documentation :: json where
  "documentation = JObj
     [(''message'', JStr ''Welcome to the Seinfeld API!''),
      (''version'', JStr ''1.0.0''),
      (''endpoints'', JObj
         [(''characters'', JObj
             [(''GET /api/characters'', JStr ''Get all characters''),
              (''GET /api/characters/:id'', JStr ''Get character by ID''),
              (''GET /api/characters/random'', JStr ''Get random character''),
              (''Query params'', JStr ''?search=term'')]),
          (''episodes'', JObj
             [(''GET /api/episodes'', JStr ''Get all episodes''),
              (''GET /api/episodes/:id'', JStr ''Get episode by ID''),
              (''GET /api/episodes/random'', JStr ''Get random episode''),
              (''Query params'', JStr ''?season=1&search=term'')]),
          (''quotes'', JObj
             [(''GET /api/quotes'', JStr ''Get all quotes''),
              (''GET /api/quotes/:id'', JStr ''Get quote by ID''),
              (''GET /api/quotes/random'', JStr ''Get random quote''),
              (''Query params'', JStr ''?character=name&search=term'')]),
          (''stats'', JObj
             [(''GET /api/stats'', JStr ''Get API statistics'')])]),
      (''examples'', JArr
         [JStr ''/api/characters'',
          JStr ''/api/episodes?season=5'',
          JStr ''/api/quotes/random'',
          JStr ''/api/quotes?character=george''])]"

text \<open>\<^verbatim>\<open>parsedUrl.pathname.split('/').filter(part => part)\<close>: the non-empty segments.\<close>

definition path_parts :: "string \<Rightarrow> string list" where
  "path_parts p = filter (\<lambda>part. part \<noteq> []) (str_split CHR ''/'' p)"

text \<open>
  \<^verbatim>\<open>handleRequest\<close>. Its first statement is \<^verbatim>\<open>url.parse(req.url, true)\<close>, which may
  throw; its second splits \<^verbatim>\<open>parsedUrl.pathname\<close>, which throws a \<open>TypeError\<close> when the
  path name is \<^verbatim>\<open>null\<close>. Both come before the method is looked at.
\<close>

definition handleRequest :: "rat \<Rightarrow> request \<Rightarrow> server \<Rightarrow> result" where
  "handleRequest u req s =
     (case url_parse req of
        Inl e \<Rightarrow> throw e s
      | Inr parsedUrl \<Rightarrow>
          (case pathname parsedUrl of
             None \<Rightarrow> throw TypeError s
           | Some p \<Rightarrow>
               (let pathParts = path_parts p;
                    query = query parsedUrl
                in if httpMethod req = ''OPTIONS'' then
                     respond \<lparr>status = 200, headers = cors_headers, body = None\<rparr> s
                   else if httpMethod req \<noteq> ''GET'' then
                     respond (sendError ''Method not allowed'' 405) s
                   else if length pathParts = 0 then
                     respond (sendJSON (Some documentation) 200) s
                   else if pathParts ! 0 = ''api'' then
                     (if length pathParts < 2 then
                        respond (sendError ''Invalid API endpoint'' 400) s
                      else
                        (let endpoint = pathParts ! 1
                         in if endpoint = ''characters'' then
                              handleCharacters u pathParts query s
                            else if endpoint = ''episodes'' then
                              handleEpisodes u pathParts query s
                            else if endpoint = ''quotes'' then
                              handleQuotes u pathParts query s
                            else if endpoint = ''stats'' then handleStats s
                            else respond (sendError ''Endpoint not found'' 404) s))
                   else respond (sendError ''Not found'' 404) s)))"

text \<open>
  The server calls \<^verbatim>\<open>handleRequest\<close> once per request, each time on the module state the
  previous call left; \<open>u\<close> is that request's value of \<^verbatim>\<open>Math.random()\<close>.
\<close>

fun serve :: "(rat \<times> request) list \<Rightarrow> server \<Rightarrow> server" where
  "serve [] s = s"
| "serve ((u, req) # rest) s = serve rest (snd (handleRequest u req s))"

subsection \<open>Vocabulary of the statements\<close>

text \<open>
  A value that \<open>ToString\<close> converts without throwing: no object in it, at any depth of
  arrays, has an own property \<open>toString\<close>. A field value is \<open>printable\<close> when
  \<^verbatim>\<open>value.toString()\<close> returns: it is convertible and is not \<^verbatim>\<open>null\<close>.
\<close>

fun convertible :: "json \<Rightarrow> bool" where
  "convertible (JArr xs) = (\<forall>x\<in>set xs. convertible x)"
| "convertible (JObj kvs) = (''toString'' \<notin> fst ` set kvs)"
| "convertible v = True"

definition printable :: "json \<Rightarrow> bool" where
  "printable v = (v \<noteq> JNull \<and> convertible v)"

definition printable_table :: "table \<Rightarrow> bool" where
  "printable_table t = (\<forall>item\<in>set t. \<forall>v\<in>set (map snd item). printable v)"

fun is_string :: "json option \<Rightarrow> bool" where
  "is_string (Some (JStr v)) = True"
| "is_string v = False"

fun is_number :: "json option \<Rightarrow> bool" where
  "is_number (Some (JNum n)) = True"
| "is_number v = False"

text \<open>
  The data model the tables are meant to follow: a character has a string \<open>name\<close>, an
  episode a number \<open>season\<close>, a quote a string \<open>character\<close>, and no field of any record is
  \<^verbatim>\<open>null\<close> or unprintable.
\<close>

definition conforms :: "server \<Rightarrow> bool" where
  "conforms s =
     (printable_table (characters s) \<and> printable_table (episodes s) \<and>
      printable_table (quotes s) \<and>
      (\<forall>c\<in>set (characters s). is_string (getprop c ''name'')) \<and>
      (\<forall>ep\<in>set (episodes s). is_number (getprop ep ''season'')) \<and>
      (\<forall>q\<in>set (quotes s). is_string (getprop q ''character'')))"

text \<open>A query parameter that is absent or given once: not an array.\<close>

fun single_valued :: "qval option \<Rightarrow> bool" where
  "single_valued (Some (QArr ss)) = False"
| "single_valued v = True"

text \<open>
  A record matches a search term when the rendering of one of its field values contains
  the term, both in lower case.
\<close>

definition matches_term :: "string \<Rightarrow> obj \<Rightarrow> bool" where
  "matches_term t item =
     (\<exists>v\<in>set (map snd item). \<exists>str. toString v = Inr str \<and>
        (\<exists>ps ss. toLowerCase str = ps @ toLowerCase t @ ss))"

text \<open>The record at index \<open>i\<close> is the first of the table whose \<open>id\<close> is the number \<open>n\<close>.\<close>

definition first_with_id :: "table \<Rightarrow> int \<Rightarrow> nat \<Rightarrow> bool" where
  "first_with_id t n i =
     (i < length t \<and> getprop (t ! i) ''id'' = Some (JNum n) \<and>
      (\<forall>j<i. getprop (t ! j) ''id'' \<noteq> Some (JNum n)))"

text \<open>
  The segment names no record of the table: it does not parse, or no record has the parsed
  number as its \<open>id\<close>.
\<close>

definition no_record_for :: "table \<Rightarrow> string \<Rightarrow> bool" where
  "no_record_for t seg =
     (case parseInt seg of
        Finite n \<Rightarrow> \<forall>r\<in>set t. getprop r ''id'' \<noteq> Some (JNum n)
      | _ \<Rightarrow> True)"

text \<open>
  The \<open>character\<close> field of the quote is a string that contains the name, both in lower
  case.
\<close>

definition quote_names :: "string \<Rightarrow> obj \<Rightarrow> bool" where
  "quote_names nm q =
     (\<exists>ch. getprop q ''character'' = Some (JStr ch) \<and>
        (\<exists>ps ss. toLowerCase ch = ps @ toLowerCase nm @ ss))"

text \<open>The \<open>season\<close> of the episode is the number that the text \<open>v\<close> parses to.\<close>

definition in_season :: "string \<Rightarrow> obj \<Rightarrow> bool" where
  "in_season v ep = (\<exists>n. parseInt v = Finite n \<and> getprop ep ''season'' = Some (JNum n))"

text \<open>
  Every number in the value, at any depth of arrays, is a safe integer: its magnitude is
  below \<open>2^53\<close>, so that \<open>num_toString\<close> prints it as JavaScript does. (An object prints
  as \<^verbatim>\<open>[object Object]\<close> whatever it holds.)
\<close>

fun exact_numbers :: "json \<Rightarrow> bool" where
  "exact_numbers (JNum n) = (\<bar>n\<bar> < 2 ^ 53)"
| "exact_numbers (JArr xs) = (\<forall>x\<in>set xs. exact_numbers x)"
| "exact_numbers v = True"

definition exact_table :: "table \<Rightarrow> bool" where
  "exact_table t = (\<forall>item\<in>set t. \<forall>v\<in>set (map snd item). exact_numbers v)"

text \<open>
  \<^verbatim>\<open>url.parse\<close> returned on the request: the path name is the string \<open>p\<close> and the query
  object is \<open>q\<close>.
\<close>

definition parsed_as :: "request \<Rightarrow> string \<Rightarrow> query \<Rightarrow> bool" where
  "parsed_as req p q = (url_parse req = Inr \<lparr>pathname = Some p, query = q\<rparr>)"

text \<open>
  An outcome of a request on the path \<open>pathParts\<close> that is an answer in the uniform shape:
  a response, with status 200, or with status 400 or 404 and a body \<open>{error: message}\<close>;
  its body is missing only on a \<open>random\<close> route over an empty table.
\<close>

definition answered :: "string list \<Rightarrow> server \<Rightarrow> exn + response \<Rightarrow> bool" where
  "answered pathParts s out =
     (\<exists>r. out = Inr r \<and>
        (status r = 200 \<or>
         ((status r = 400 \<or> status r = 404) \<and>
          (\<exists>msg. body r = Some (JObj [(''error'', JStr msg)])))) \<and>
        (body r = None \<longrightarrow>
           status r = 200 \<and>
           ((pathParts = [''api'', ''characters'', ''random''] \<and> characters s = []) \<or>
            (pathParts = [''api'', ''episodes'', ''random''] \<and> episodes s = []) \<or>
            (pathParts = [''api'', ''quotes'', ''random''] \<and> quotes s = []))))"

text \<open>A small dataset and the empty one, for concrete runs.\<close>

definition sample_server :: server where
  "sample_server =
     \<lparr>characters =
        [[(''id'', JNum 1), (''name'', JStr ''Jerry'')],
         [(''id'', JNum 5), (''name'', JStr ''George'')]],
      episodes =
        [[(''id'', JNum 1), (''season'', JNum 1), (''title'', JStr ''The Stake Out'')],
         [(''id'', JNum 5), (''season'', JNum 2), (''title'', JStr ''The Jacket'')],
         [(''id'', JNum 16), (''season'', JNum 2), (''title'', JStr ''The Chinese Restaurant'')]],
      quotes =
        [[(''id'', JNum 1), (''character'', JStr ''Jerry Seinfeld''), (''text'', JStr ''Hello, Newman.'')],
         [(''id'', JNum 2), (''character'', JStr ''George Costanza''), (''text'', JStr ''I was in the pool!'')],
         [(''id'', JNum 3), (''character'', JStr ''JERRY''), (''text'', JStr ''Who are these people?'')]]\<rparr>"

definition null_field_server :: server where
  "null_field_server =
     \<lparr>characters = [[(''id'', JNum 1), (''name'', JStr ''Jerry''), (''actor'', JNull)]],
      episodes = [],
      quotes = []\<rparr>"

definition empty_server :: server where
  "empty_server = \<lparr>characters = [], episodes = [], quotes = []\<rparr>"

definition get_request :: "string \<Rightarrow> query \<Rightarrow> request" where
  "get_request p q =
     \<lparr>httpMethod = ''GET'', url_parse = Inr \<lparr>pathname = Some p, query = q\<rparr>\<rparr>"

subsection \<open>Properties of the helpers\<close>

lemma startsWith_iff: "startsWith s t \<longleftrightarrow> (\<exists>ss. s = t @ ss)"
  by (induction s t rule: startsWith.induct) auto

text \<open>\<open>str_includes\<close> is the substring relation.\<close>

lemma str_includes_iff: "str_includes s t \<longleftrightarrow> (\<exists>ps ss. s = ps @ t @ ss)"
proof (induction s)
  case Nil
  then show ?case by auto
next
  case (Cons a s)
  show ?case
  proof
    assume "str_includes (a # s) t"
    then consider "startsWith (a # s) t" | "str_includes s t" by auto
    then show "\<exists>ps ss. a # s = ps @ t @ ss"
    proof cases
      case 1
      then obtain ss where "a # s = t @ ss" by (auto simp: startsWith_iff)
      then have "a # s = [] @ t @ ss" by simp
      then show ?thesis by blast
    next
      case 2
      then obtain ps ss where "s = ps @ t @ ss" using Cons.IH by blast
      then have "a # s = (a # ps) @ t @ ss" by simp
      then show ?thesis by blast
    qed
  next
    assume "\<exists>ps ss. a # s = ps @ t @ ss"
    then obtain ps ss where e: "a # s = ps @ t @ ss" by blast
    show "str_includes (a # s) t"
    proof (cases ps)
      case Nil
      with e have "startsWith (a # s) t" by (auto simp: startsWith_iff)
      then show ?thesis by simp
    next
      case (Cons b ps')
      with e have "s = ps' @ t @ ss" by simp
      then have "str_includes s t" using Cons.IH by blast
      then show ?thesis by simp
    qed
  qed
qed

text \<open>A callback that never throws makes \<open>some_exn\<close> and \<open>filter_exn\<close> the list functions.\<close>

lemma some_exn_total:
  "\<forall>x\<in>set xs. f x = Inr (p x) \<Longrightarrow> some_exn f xs = Inr (\<exists>x\<in>set xs. p x)"
  by (induction xs) auto

lemma filter_exn_total:
  "\<forall>x\<in>set xs. f x = Inr (p x) \<Longrightarrow> filter_exn f xs = Inr (filter p xs)"
  by (induction xs) auto

text \<open>
  C8. The substring filter applied with an absent query, or with the empty string, returns
  the table it was given: the same records in the same order.
\<close>

theorem filterByQuery_absent_or_empty:
  "filterByQuery array None = Inr array \<and> filterByQuery array (Some (QStr [])) = Inr array"
  by (simp add: filterByQuery_def)

subsection \<open>parseInt on a segment that begins with decimal digits\<close>

lemma is_digit_10:
  "is_digit 10 c \<longleftrightarrow> 48 \<le> (of_char c :: nat) \<and> (of_char c :: nat) \<le> 57"
  by (auto simp: is_digit_def digit_val_def Let_def)

lemma digit_not_white: "is_digit 10 c \<Longrightarrow> \<not> is_white c"
  by (auto simp: is_digit_10 is_white_def)

lemma digit_not_sign:
  "is_digit 10 c \<Longrightarrow>
     c \<noteq> CHR ''-'' \<and> c \<noteq> CHR ''+'' \<and> c \<noteq> CHR ''x'' \<and> c \<noteq> CHR ''X''"
  by (auto simp: is_digit_10)

text \<open>
  A run of decimal digits followed by something that is not a decimal digit parses to the
  value of the run, unless the run is the single digit 0 and an \<open>x\<close> follows: that is the
  hexadecimal prefix.
\<close>

lemma parseInt_digits:
  assumes "ds \<noteq> []" and "\<forall>c\<in>set ds. is_digit 10 c"
    and "rest = [] \<or> \<not> is_digit 10 (hd rest)"
    and "\<not> (ds = ''0'' \<and> rest \<noteq> [] \<and> (hd rest = CHR ''x'' \<or> hd rest = CHR ''X''))"
  shows "parseInt (ds @ rest) = number_of False (digits_value 10 ds)"
proof -
  obtain d ds' where ds: "ds = d # ds'" using assms(1) by (cases ds) auto
  have d: "is_digit 10 d" using assms(2) ds by simp
  have dw: "dropWhile is_white (ds @ rest) = ds @ rest"
    using digit_not_white[OF d] ds by simp
  have nohex: "take 2 (ds @ rest) \<noteq> ''0x'' \<and> take 2 (ds @ rest) \<noteq> ''0X''"
  proof (cases ds')
    case Nil
    then show ?thesis using assms(4) ds by (cases rest) auto
  next
    case (Cons e es)
    then have "is_digit 10 e" using assms(2) ds by simp
    then show ?thesis using ds Cons digit_not_sign[of e] by auto
  qed
  have tw: "takeWhile (is_digit 10) (ds @ rest) = ds"
  proof (cases rest)
    case Nil
    then show ?thesis using assms(2) by simp
  next
    case (Cons r rs)
    then show ?thesis using assms(2,3) by (simp add: takeWhile_append2)
  qed
  have hd: "ds @ rest \<noteq> []" "hd (ds @ rest) \<noteq> CHR ''-''" "hd (ds @ rest) \<noteq> CHR ''+''"
    using ds digit_not_sign[OF d] by auto
  have "parseInt (ds @ rest) =
      (let z = takeWhile (is_digit 10) (ds @ rest)
       in if z = [] then NaN else number_of False (digits_value 10 z))"
    unfolding parseInt_def Let_def dw using hd nohex by simp
  then show ?thesis
    unfolding tw Let_def using assms(1) by simp
qed

lemma parseInt_prefix:
  assumes "ds \<noteq> []" and "\<forall>c\<in>set ds. is_digit 10 c"
    and "rest = [] \<or> \<not> is_digit 10 (hd rest)"
    and "\<not> (ds = ''0'' \<and> rest \<noteq> [] \<and> (hd rest = CHR ''x'' \<or> hd rest = CHR ''X''))"
  shows "parseInt (ds @ rest) = parseInt ds"
  using parseInt_digits[OF assms] parseInt_digits[of ds "[]"] assms(1,2) by simp

subsection \<open>The dispatcher on unknown paths\<close>

text \<open>
  C1. Every GET request whose path (as \<^verbatim>\<open>url.parse\<close> returns it) begins with the segments
  \<open>api\<close> and \<open>catchphrases\<close> is answered with status 404 and the JSON body \<open>{error: "Endpoint not found"}\<close>: the
  dispatcher has no case for the resource, so the request never reaches
  \<^verbatim>\<open>handleCatchphrases\<close>; it gets no data and throws no exception.
\<close>

theorem catchphrases_endpoint_not_found:
  assumes "httpMethod req = ''GET''"
    and "parsed_as req p q"
    and "path_parts p = ''api'' # ''catchphrases'' # rest"
  shows "handleRequest u req s = (Inr (sendError ''Endpoint not found'' 404), s)"
  using assms by (simp add: handleRequest_def parsed_as_def respond_def)

theorem catchphrases_endpoint_not_found_witness:
  "handleRequest 0 (get_request ''/api/catchphrases/random'' []) sample_server
     = (Inr (sendError ''Endpoint not found'' 404), sample_server)"
  using catchphrases_endpoint_not_found
    [of "get_request ''/api/catchphrases/random'' []" "''/api/catchphrases/random''" "[]"
        "[''random'']" 0 sample_server]
  by (simp add: get_request_def parsed_as_def path_parts_def)

text \<open>
  Had the dispatcher called it, the handler would have thrown on every collection, random
  and by-id path.
\<close>

lemma handleCatchphrases_throws:
  "length pathParts = 2 \<or> length pathParts = 3 \<Longrightarrow>
     handleCatchphrases u pathParts q s = (Inl ReferenceError, s)"
  by (auto simp: handleCatchphrases_def throw_def)

subsection \<open>The module state\<close>

lemma snd_respond [simp]: "snd (respond r s) = s"
  by (simp add: respond_def)

lemma snd_throw [simp]: "snd (throw e s) = s"
  by (simp add: throw_def)

lemma handleCharacters_state: "snd (handleCharacters u pathParts q s) = s"
  unfolding handleCharacters_def Let_def
  by (simp split: sum.split option.split)

lemma handleEpisodes_state: "snd (handleEpisodes u pathParts q s) = s"
  unfolding handleEpisodes_def Let_def
  by (simp split: sum.split option.split)

lemma handleQuotes_state: "snd (handleQuotes u pathParts q s) = s"
  unfolding handleQuotes_def Let_def
  by (simp split: sum.split option.split)

lemma handleStats_state: "snd (handleStats s) = s"
  unfolding handleStats_def
  by (simp split: sum.split)

lemma handleRequest_state: "snd (handleRequest u req s) = s"
proof (cases "url_parse req")
  case (Inl e)
  then show ?thesis by (simp add: handleRequest_def)
next
  case (Inr parsedUrl)
  show ?thesis
  proof (cases "pathname parsedUrl")
    case None
    then show ?thesis using Inr by (simp add: handleRequest_def)
  next
    case (Some p)
    then show ?thesis
      using Inr unfolding handleRequest_def Let_def
      by (simp add: handleCharacters_state handleEpisodes_state handleQuotes_state
          handleStats_state)
  qed
qed

text \<open>
  C9. Request handling leaves the three tables as they were: whatever the request, and
  whether it is answered or throws, the module state after \<^verbatim>\<open>handleRequest\<close> is the state
  before it, and so it is after any sequence of requests.
\<close>

theorem tables_unchanged:
  "snd (handleRequest u req s) = s \<and> serve rs s = s"
proof -
  have "serve rs s = s"
    by (induction rs arbitrary: s) (auto simp: handleRequest_state)
  then show ?thesis by (simp add: handleRequest_state)
qed

lemma fst_respond [simp]: "fst (respond r s) = Inr r"
  by (simp add: respond_def)

lemma fst_throw [simp]: "fst (throw e s) = Inl e"
  by (simp add: throw_def)

text \<open>The dispatcher on a GET request that \<^verbatim>\<open>url.parse\<close> has parsed.\<close>

lemma handleRequest_not_api:
  assumes "httpMethod req = ''GET''" and "parsed_as req path q"
    and "path_parts path = p # ps" and "p \<noteq> ''api''"
  shows "handleRequest u req s = respond (sendError ''Not found'' 404) s"
  using assms by (simp add: handleRequest_def parsed_as_def)

lemma handleRequest_api_alone:
  assumes "httpMethod req = ''GET''" and "parsed_as req path q"
    and "path_parts path = [''api'']"
  shows "handleRequest u req s = respond (sendError ''Invalid API endpoint'' 400) s"
  using assms by (simp add: handleRequest_def parsed_as_def)

lemma handleRequest_unknown_endpoint:
  assumes "httpMethod req = ''GET''" and "parsed_as req path q"
    and "path_parts path = ''api'' # e # rest"
    and "e \<noteq> ''characters''" and "e \<noteq> ''episodes''" and "e \<noteq> ''quotes''"
    and "e \<noteq> ''stats''"
  shows "handleRequest u req s = respond (sendError ''Endpoint not found'' 404) s"
  using assms by (simp add: handleRequest_def parsed_as_def)

lemma handleRequest_characters:
  assumes "httpMethod req = ''GET''" and "parsed_as req path q"
    and "path_parts path = ''api'' # ''characters'' # rest"
  shows "handleRequest u req s = handleCharacters u (path_parts path) q s"
  using assms by (simp add: handleRequest_def parsed_as_def)

lemma handleRequest_episodes:
  assumes "httpMethod req = ''GET''" and "parsed_as req path q"
    and "path_parts path = ''api'' # ''episodes'' # rest"
  shows "handleRequest u req s = handleEpisodes u (path_parts path) q s"
  using assms by (simp add: handleRequest_def parsed_as_def)

lemma handleRequest_quotes:
  assumes "httpMethod req = ''GET''" and "parsed_as req path q"
    and "path_parts path = ''api'' # ''quotes'' # rest"
  shows "handleRequest u req s = handleQuotes u (path_parts path) q s"
  using assms by (simp add: handleRequest_def parsed_as_def)

lemma handleRequest_stats:
  assumes "httpMethod req = ''GET''" and "parsed_as req path q"
    and "path_parts path = ''api'' # ''stats'' # rest"
  shows "handleRequest u req s = handleStats s"
  using assms by (simp add: handleRequest_def parsed_as_def)

text \<open>
  C2, as the code has it. A GET request whose first path segment is not \<open>api\<close> gets status
  404 with body \<open>{error: "Not found"}\<close>. Under \<open>api\<close> the unknown paths get other errors:
  \<open>/api\<close> alone gets 400 \<open>Invalid API endpoint\<close>, an unknown resource gets 404
  \<open>Endpoint not found\<close>, and a path of four or more segments under characters, episodes
  or quotes gets 404 \<open>Invalid <resource> endpoint\<close>.
\<close>

theorem unknown_path_errors:
  assumes "httpMethod req = ''GET''" and "parsed_as req path q"
    and "path_parts path = p # ps"
  shows "(p \<noteq> ''api'' \<longrightarrow>
            fst (handleRequest u req s) = Inr (sendError ''Not found'' 404)) \<and>
         (p = ''api'' \<and> ps = [] \<longrightarrow>
            fst (handleRequest u req s) = Inr (sendError ''Invalid API endpoint'' 400)) \<and>
         (p = ''api'' \<and> ps \<noteq> [] \<and>
          hd ps \<notin> {''characters'', ''episodes'', ''quotes'', ''stats''} \<longrightarrow>
            fst (handleRequest u req s) = Inr (sendError ''Endpoint not found'' 404)) \<and>
         (p = ''api'' \<and> 3 \<le> length ps \<and> hd ps = ''characters'' \<longrightarrow>
            fst (handleRequest u req s) = Inr (sendError ''Invalid characters endpoint'' 404)) \<and>
         (p = ''api'' \<and> 3 \<le> length ps \<and> hd ps = ''episodes'' \<longrightarrow>
            fst (handleRequest u req s) = Inr (sendError ''Invalid episodes endpoint'' 404)) \<and>
         (p = ''api'' \<and> 3 \<le> length ps \<and> hd ps = ''quotes'' \<longrightarrow>
            fst (handleRequest u req s) = Inr (sendError ''Invalid quotes endpoint'' 404))"
proof -
  have a: "p \<noteq> ''api'' \<Longrightarrow> fst (handleRequest u req s) = Inr (sendError ''Not found'' 404)"
    using handleRequest_not_api[OF assms, of u s] by simp
  have b: "p = ''api'' \<Longrightarrow> ps = [] \<Longrightarrow>
      fst (handleRequest u req s) = Inr (sendError ''Invalid API endpoint'' 400)"
    using handleRequest_api_alone[OF assms(1,2), of u s] assms(3) by simp
  have c: "fst (handleRequest u req s) = Inr (sendError ''Endpoint not found'' 404)"
    if h1: "p = ''api''" and h2: "ps \<noteq> []"
      and h3: "hd ps \<notin> {''characters'', ''episodes'', ''quotes'', ''stats''}"
  proof -
    obtain e rest where ps: "ps = e # rest" using h2 by (cases ps) auto
    then show ?thesis
      using handleRequest_unknown_endpoint[OF assms(1,2), of e rest u s] assms(3) h1 h3
      by simp
  qed
  have d: "fst (handleRequest u req s) = Inr (sendError ''Invalid characters endpoint'' 404)"
    if h1: "p = ''api''" and h2: "3 \<le> length ps" and h3: "hd ps = ''characters''"
  proof -
    obtain e rest where ps: "ps = e # rest" using h2 by (cases ps) auto
    then have "handleRequest u req s = handleCharacters u (p # ps) q s"
      using handleRequest_characters[OF assms(1,2), of rest u s] assms(3) h1 h3 by simp
    then show ?thesis using h2 by (simp add: handleCharacters_def)
  qed
  have e: "fst (handleRequest u req s) = Inr (sendError ''Invalid episodes endpoint'' 404)"
    if h1: "p = ''api''" and h2: "3 \<le> length ps" and h3: "hd ps = ''episodes''"
  proof -
    obtain e rest where ps: "ps = e # rest" using h2 by (cases ps) auto
    then have "handleRequest u req s = handleEpisodes u (p # ps) q s"
      using handleRequest_episodes[OF assms(1,2), of rest u s] assms(3) h1 h3 by simp
    then show ?thesis using h2 by (simp add: handleEpisodes_def)
  qed
  have f: "fst (handleRequest u req s) = Inr (sendError ''Invalid quotes endpoint'' 404)"
    if h1: "p = ''api''" and h2: "3 \<le> length ps" and h3: "hd ps = ''quotes''"
  proof -
    obtain e rest where ps: "ps = e # rest" using h2 by (cases ps) auto
    then have "handleRequest u req s = handleQuotes u (p # ps) q s"
      using handleRequest_quotes[OF assms(1,2), of rest u s] assms(3) h1 h3 by simp
    then show ?thesis using h2 by (simp add: handleQuotes_def)
  qed
  from a b c d e f show ?thesis by blast
qed

theorem unknown_path_errors_witness:
  "fst (handleRequest 0 (get_request ''/nothing/here'' []) sample_server)
      = Inr (sendError ''Not found'' 404) \<and>
   fst (handleRequest 0 (get_request ''/api'' []) sample_server)
      = Inr (sendError ''Invalid API endpoint'' 400) \<and>
   fst (handleRequest 0 (get_request ''/api/foo'' []) sample_server)
      = Inr (sendError ''Endpoint not found'' 404) \<and>
   fst (handleRequest 0 (get_request ''/api/quotes/1/text'' []) sample_server)
      = Inr (sendError ''Invalid quotes endpoint'' 404)"
  using unknown_path_errors [of "get_request ''/nothing/here'' []" "''/nothing/here''" "[]"
        "''nothing''" "[''here'']" 0 sample_server]
    unknown_path_errors [of "get_request ''/api'' []" "''/api''" "[]" "''api''" "[]" 0 sample_server]
    unknown_path_errors [of "get_request ''/api/foo'' []" "''/api/foo''" "[]"
        "''api''" "[''foo'']" 0 sample_server]
    unknown_path_errors [of "get_request ''/api/quotes/1/text'' []" "''/api/quotes/1/text''" "[]"
        "''api''" "[''quotes'', ''1'', ''text'']" 0 sample_server]
  by (simp add: get_request_def parsed_as_def path_parts_def)

text \<open>
  The path \<open>/api/foo\<close> matches no route, and its answer is not the body
  \<open>{error: "Not found"}\<close>.
\<close>

theorem unknown_api_endpoint_counterexample:
  "fst (handleRequest 0 (get_request ''/api/foo'' []) sample_server)
     \<noteq> Inr (sendError ''Not found'' 404)"
  by (simp add: handleRequest_def get_request_def path_parts_def sendError_def sendJSON_def)

subsection \<open>Lookup by id\<close>

lemma digit_seg_not_random:
  assumes "ds \<noteq> []" and "\<forall>c\<in>set ds. is_digit 10 c"
  shows "ds @ rest \<noteq> ''random''"
proof -
  obtain d ds' where ds: "ds = d # ds'" using assms(1) by (cases ds) auto
  then have "is_digit 10 d" using assms(2) by simp
  then have "d \<noteq> CHR ''r''" by (auto simp: is_digit_10)
  then show ?thesis using ds by auto
qed

text \<open>
  C10, as the code has it. A by-id path segment that begins with decimal digits followed
  by a character that is not a decimal digit is looked up, on each of the three resources,
  as its leading run of digits, provided the segment does not begin with \<open>0x\<close> or \<open>0X\<close>.
\<close>

theorem by_id_leading_digits:
  assumes "ds \<noteq> []" and "\<forall>c\<in>set ds. is_digit 10 c"
    and "rest \<noteq> []" and "\<not> is_digit 10 (hd rest)"
    and "\<not> (ds = ''0'' \<and> (hd rest = CHR ''x'' \<or> hd rest = CHR ''X''))"
  shows "handleCharacters u [a, b, ds @ rest] q s = handleCharacters u [a, b, ds] q s \<and>
         handleEpisodes u [a, b, ds @ rest] q s = handleEpisodes u [a, b, ds] q s \<and>
         handleQuotes u [a, b, ds @ rest] q s = handleQuotes u [a, b, ds] q s"
proof -
  have p: "parseInt (ds @ rest) = parseInt ds"
    using assms by (intro parseInt_prefix) auto
  have r1: "ds @ rest \<noteq> ''random''"
    using digit_seg_not_random[OF assms(1,2)] .
  have r2: "ds \<noteq> ''random''"
    using digit_seg_not_random[OF assms(1,2), of "[]"] by simp
  show ?thesis
    using p r1 r2 by (simp add: handleCharacters_def handleEpisodes_def handleQuotes_def)
qed

text \<open>The segment \<open>5abc\<close> is looked up as 5, and returns the episode whose id is 5.\<close>

theorem by_id_leading_digits_witness:
  "handleEpisodes 0 [''api'', ''episodes'', ''5abc''] [] sample_server
     = handleEpisodes 0 [''api'', ''episodes'', ''5''] [] sample_server \<and>
   fst (handleEpisodes 0 [''api'', ''episodes'', ''5abc''] [] sample_server)
     = Inr (sendJSON (Some (JObj
         [(''id'', JNum 5), (''season'', JNum 2), (''title'', JStr ''The Jacket'')])) 200)"
proof -
  have "handleEpisodes 0 [''api'', ''episodes'', ''5'' @ ''abc''] [] sample_server
     = handleEpisodes 0 [''api'', ''episodes'', ''5''] [] sample_server"
    using by_id_leading_digits [of "''5''" "''abc''" 0 "''api''" "''episodes''" "[]" sample_server]
    by (simp add: is_digit_10)
  moreover have "fst (handleEpisodes 0 [''api'', ''episodes'', ''5''] [] sample_server)
     = Inr (sendJSON (Some (JObj
         [(''id'', JNum 5), (''season'', JNum 2), (''title'', JStr ''The Jacket'')])) 200)"
    by code_simp
  ultimately show ?thesis by simp
qed

text \<open>
  The segment \<open>0x10\<close> begins with the digit 0 followed by a letter. It is read as the
  hexadecimal number 16 and returns episode 16; its leading digits, \<open>0\<close>, name no episode.
\<close>

theorem hex_segment_counterexample:
  "fst (handleEpisodes 0 [''api'', ''episodes'', ''0x10''] [] sample_server)
     = Inr (sendJSON (Some (JObj
         [(''id'', JNum 16), (''season'', JNum 2),
          (''title'', JStr ''The Chinese Restaurant'')])) 200) \<and>
   fst (handleEpisodes 0 [''api'', ''episodes'', ''0''] [] sample_server)
     = Inr (sendError ''Episode not found'' 404)"
  by code_simp

lemma find_first_with_id:
  assumes "first_with_id t n i"
  shows "find (\<lambda>c. strict_eq_num (getprop c ''id'') (Finite n)) t = Some (t ! i)"
  using assms unfolding first_with_id_def strict_eq_num_def
  by (auto simp: find_Some_iff)

lemma find_no_record:
  assumes "no_record_for t seg"
  shows "find (\<lambda>c. strict_eq_num (getprop c ''id'') (parseInt seg)) t = None"
  using assms unfolding no_record_for_def strict_eq_num_def
  by (auto simp: find_None_iff split: jsnum.splits)


lemma is_string_iff: "is_string v \<longleftrightarrow> (\<exists>x. v = Some (JStr x))"
  by (cases v rule: is_string.cases) auto

lemma is_number_iff: "is_number v \<longleftrightarrow> (\<exists>n. v = Some (JNum n))"
  by (cases v rule: is_number.cases) auto

lemma quote_of_character_string:
  assumes "is_string (getprop q ''character'')"
  shows "quote_of_character (Some (JStr nm)) q = Inr (quote_names nm q)"
  using assms
  by (auto simp: is_string_iff quote_of_character_def quote_names_def str_includes_iff)

lemma map_of_replace_same:
  "k \<in> fst ` set ob \<Longrightarrow>
     map_of (map (\<lambda>(k', v'). if k' = k then (k', v) else (k', v')) ob) k = Some v"
proof (induction ob)
  case Nil
  then show ?case by simp
next
  case (Cons x ob)
  obtain a b where x: "x = (a, b)" by (cases x)
  show ?case
  proof (cases "a = k")
    case True
    then show ?thesis using x by simp
  next
    case False
    then have "k \<in> fst ` set ob" using Cons.prems x by auto
    then show ?thesis using Cons.IH False x by simp
  qed
qed

lemma map_of_replace_other:
  "k' \<noteq> k \<Longrightarrow>
     map_of (map (\<lambda>(k', v'). if k' = k then (k', v) else (k', v')) ob) k' = map_of ob k'"
proof (induction ob)
  case Nil
  then show ?case by simp
next
  case (Cons x ob)
  obtain a b where x: "x = (a, b)" by (cases x)
  show ?case using Cons x by (cases "a = k") simp_all
qed

lemma getprop_spread_with_same: "getprop (spread_with ob k v) k = Some v"
proof (cases "k \<in> fst ` set ob")
  case True
  then show ?thesis
    using map_of_replace_same[OF True, of v] by (simp add: getprop_def spread_with_def)
next
  case False
  then have "map_of ob k = None" by (simp add: map_of_eq_None_iff)
  with False show ?thesis by (simp add: getprop_def spread_with_def map_add_def)
qed

lemma getprop_spread_with_other:
  assumes "k' \<noteq> k"
  shows "getprop (spread_with ob k v) k' = getprop ob k'"
proof (cases "k \<in> fst ` set ob")
  case True
  then show ?thesis
    using map_of_replace_other[OF assms, of v ob] by (simp add: getprop_def spread_with_def)
next
  case False
  then show ?thesis
    using assms by (simp add: getprop_def spread_with_def map_add_def split: option.split)
qed

lemma quote_names_code [code]:
  "quote_names nm q =
     (case getprop q ''character'' of
        Some (JStr ch) \<Rightarrow> str_includes (toLowerCase ch) (toLowerCase nm)
      | _ \<Rightarrow> False)"
  by (auto simp: quote_names_def str_includes_iff split: option.splits json.splits)


lemma handleCharacters_found:
  assumes "seg \<noteq> ''random''" and "parseInt seg = Finite n"
    and "first_with_id (characters s) n k"
    and "getprop (characters s ! k) ''name'' = Some (JStr nm)"
    and "\<forall>qu\<in>set (quotes s). is_string (getprop qu ''character'')"
  shows "fst (handleCharacters u [a, b, seg] q s)
     = Inr (sendJSON (Some (JObj (spread_with (characters s ! k) ''quotes''
         (JArr (map JObj (filter (quote_names nm) (quotes s))))))) 200)"
proof -
  have "filter_exn (quote_of_character (Some (JStr nm))) (quotes s)
      = Inr (filter (quote_names nm) (quotes s))"
    using assms(5) by (intro filter_exn_total) (simp add: quote_of_character_string)
  then show ?thesis
    using assms(1,2,4) find_first_with_id[OF assms(3)]
    by (simp add: handleCharacters_def)
qed

text \<open>
  C4. On each of the three tables, for a path segment other than the route word
  \<open>random\<close>: when the segment parses to a number that is the \<open>id\<close> of a record, the
  lookup finds the first such record of the table and the answer is that record, with
  status 200 (for a character, whose \<open>name\<close> and the quotes' \<open>character\<close> are strings as
  the data model has them, the record with its \<open>quotes\<close> property set); when the segment
  does not parse, or no record has the parsed id, the answer is the 404 error
  \<open><Resource> not found\<close>, and no exception is thrown.
\<close>

theorem by_id_lookup:
  assumes "seg \<noteq> ''random''"
  shows "(parseInt seg = Finite n \<and> first_with_id (episodes s) n i \<longrightarrow>
            fst (handleEpisodes u [a, b, seg] q s)
              = Inr (sendJSON (Some (JObj (episodes s ! i))) 200)) \<and>
         (parseInt seg = Finite n \<and> first_with_id (quotes s) n j \<longrightarrow>
            fst (handleQuotes u [a, b, seg] q s)
              = Inr (sendJSON (Some (JObj (quotes s ! j))) 200)) \<and>
         (parseInt seg = Finite n \<and> first_with_id (characters s) n k \<and>
          is_string (getprop (characters s ! k) ''name'') \<and>
          (\<forall>qu\<in>set (quotes s). is_string (getprop qu ''character'')) \<longrightarrow>
            (\<exists>ob. fst (handleCharacters u [a, b, seg] q s)
                    = Inr (sendJSON (Some (JObj ob)) 200) \<and>
                  (\<forall>key. key \<noteq> ''quotes'' \<longrightarrow>
                     getprop ob key = getprop (characters s ! k) key))) \<and>
         (no_record_for (episodes s) seg \<longrightarrow>
            fst (handleEpisodes u [a, b, seg] q s) = Inr (sendError ''Episode not found'' 404)) \<and>
         (no_record_for (quotes s) seg \<longrightarrow>
            fst (handleQuotes u [a, b, seg] q s) = Inr (sendError ''Quote not found'' 404)) \<and>
         (no_record_for (characters s) seg \<longrightarrow>
            fst (handleCharacters u [a, b, seg] q s)
              = Inr (sendError ''Character not found'' 404))"
proof -
  have e1: "parseInt seg = Finite n \<Longrightarrow> first_with_id (episodes s) n i \<Longrightarrow>
      fst (handleEpisodes u [a, b, seg] q s) = Inr (sendJSON (Some (JObj (episodes s ! i))) 200)"
    using assms find_first_with_id[of "episodes s" n i]
    by (simp add: handleEpisodes_def)
  have q1: "parseInt seg = Finite n \<Longrightarrow> first_with_id (quotes s) n j \<Longrightarrow>
      fst (handleQuotes u [a, b, seg] q s) = Inr (sendJSON (Some (JObj (quotes s ! j))) 200)"
    using assms find_first_with_id[of "quotes s" n j]
    by (simp add: handleQuotes_def)
  have c1: "\<exists>ob. fst (handleCharacters u [a, b, seg] q s)
                    = Inr (sendJSON (Some (JObj ob)) 200) \<and>
                  (\<forall>key. key \<noteq> ''quotes'' \<longrightarrow>
                     getprop ob key = getprop (characters s ! k) key)"
    if h1: "parseInt seg = Finite n" and h2: "first_with_id (characters s) n k"
      and h3: "is_string (getprop (characters s ! k) ''name'')"
      and h4: "\<forall>qu\<in>set (quotes s). is_string (getprop qu ''character'')"
  proof -
    obtain nm where nm: "getprop (characters s ! k) ''name'' = Some (JStr nm)"
      using h3 by (auto simp: is_string_iff)
    have "\<forall>key. key \<noteq> ''quotes'' \<longrightarrow>
        getprop (spread_with (characters s ! k) ''quotes''
          (JArr (map JObj (filter (quote_names nm) (quotes s))))) key
        = getprop (characters s ! k) key"
      by (simp add: getprop_spread_with_other)
    with handleCharacters_found[OF assms h1 h2 nm h4, of u a b q]
    show ?thesis by blast
  qed
  have e2: "no_record_for (episodes s) seg \<Longrightarrow>
      fst (handleEpisodes u [a, b, seg] q s) = Inr (sendError ''Episode not found'' 404)"
    using assms find_no_record[of "episodes s" seg]
    by (simp add: handleEpisodes_def)
  have q2: "no_record_for (quotes s) seg \<Longrightarrow>
      fst (handleQuotes u [a, b, seg] q s) = Inr (sendError ''Quote not found'' 404)"
    using assms find_no_record[of "quotes s" seg]
    by (simp add: handleQuotes_def)
  have c2: "no_record_for (characters s) seg \<Longrightarrow>
      fst (handleCharacters u [a, b, seg] q s) = Inr (sendError ''Character not found'' 404)"
    using assms find_no_record[of "characters s" seg]
    by (simp add: handleCharacters_def)
  from e1 q1 c1 e2 q2 c2 show ?thesis by blast
qed

text \<open>
  Episode 5 is found, and so is character 1, returned with its two quotes; the segment
  \<open>abc\<close> does not parse, and no character has the id 7.
\<close>

theorem by_id_lookup_witness:
  "fst (handleEpisodes 0 [''api'', ''episodes'', ''5''] [] sample_server)
     = Inr (sendJSON (Some (JObj
         [(''id'', JNum 5), (''season'', JNum 2), (''title'', JStr ''The Jacket'')])) 200) \<and>
   (\<exists>ob. fst (handleCharacters 0 [''api'', ''characters'', ''1''] [] sample_server)
            = Inr (sendJSON (Some (JObj ob)) 200) \<and>
          getprop ob ''id'' = Some (JNum 1) \<and> getprop ob ''name'' = Some (JStr ''Jerry'')) \<and>
   fst (handleQuotes 0 [''api'', ''quotes'', ''abc''] [] sample_server)
     = Inr (sendError ''Quote not found'' 404) \<and>
   fst (handleCharacters 0 [''api'', ''characters'', ''7''] [] sample_server)
     = Inr (sendError ''Character not found'' 404)"
proof -
  have p5: "parseInt ''5'' = Finite 5" by code_simp
  have p1: "parseInt ''1'' = Finite 1" by code_simp
  have f5: "first_with_id (episodes sample_server) 5 1"
    by (simp add: first_with_id_def sample_server_def getprop_def)
  have f1: "first_with_id (characters sample_server) 1 0"
    by (simp add: first_with_id_def sample_server_def getprop_def)
  have c1: "characters sample_server ! 0 = [(''id'', JNum 1), (''name'', JStr ''Jerry'')]"
    by (simp add: sample_server_def)
  have nm: "is_string (getprop (characters sample_server ! 0) ''name'')"
    by (simp add: c1 getprop_def)
  have qs: "\<forall>qu\<in>set (quotes sample_server). is_string (getprop qu ''character'')"
    by (simp add: sample_server_def getprop_def)
  have nq: "no_record_for (quotes sample_server) ''abc''"
    by code_simp
  have nc: "no_record_for (characters sample_server) ''7''"
    by code_simp
  have e5: "episodes sample_server ! 1
      = [(''id'', JNum 5), (''season'', JNum 2), (''title'', JStr ''The Jacket'')]"
    by (simp add: sample_server_def)
  have r1: "''5'' \<noteq> ''random''" "''1'' \<noteq> ''random''" "''abc'' \<noteq> ''random''"
    "''7'' \<noteq> ''random''" by simp_all
  note t5 = by_id_lookup [OF r1(1), of 5 sample_server 1 0 "''api''" "''episodes''" "[]"]
  note t1 = by_id_lookup [OF r1(2), of 1 sample_server _ 0 "''api''" "''characters''" "[]" _ 0]
  note ta = by_id_lookup [OF r1(3), of _ sample_server _ 0 "''api''" "''quotes''" "[]"]
  note t7 = by_id_lookup [OF r1(4), of _ sample_server _ 0 "''api''" "''characters''" "[]"]
  have a: "fst (handleEpisodes 0 [''api'', ''episodes'', ''5''] [] sample_server)
     = Inr (sendJSON (Some (JObj
         [(''id'', JNum 5), (''season'', JNum 2), (''title'', JStr ''The Jacket'')])) 200)"
    using t5 p5 f5 e5 by simp
  have b: "\<exists>ob. fst (handleCharacters 0 [''api'', ''characters'', ''1''] [] sample_server)
            = Inr (sendJSON (Some (JObj ob)) 200) \<and>
          getprop ob ''id'' = Some (JNum 1) \<and> getprop ob ''name'' = Some (JStr ''Jerry'')"
  proof -
    obtain ob where ob: "fst (handleCharacters 0 [''api'', ''characters'', ''1''] [] sample_server)
            = Inr (sendJSON (Some (JObj ob)) 200)"
      "\<forall>key. key \<noteq> ''quotes'' \<longrightarrow> getprop ob key = getprop (characters sample_server ! 0) key"
      using t1 p1 f1 nm qs by blast
    have "getprop ob ''id'' = Some (JNum 1)" "getprop ob ''name'' = Some (JStr ''Jerry'')"
      using ob(2) by (simp_all add: c1 getprop_def)
    with ob(1) show ?thesis by blast
  qed
  have c: "fst (handleQuotes 0 [''api'', ''quotes'', ''abc''] [] sample_server)
     = Inr (sendError ''Quote not found'' 404)"
    using ta nq by blast
  have d: "fst (handleCharacters 0 [''api'', ''characters'', ''7''] [] sample_server)
     = Inr (sendError ''Character not found'' 404)"
    using t7 nc by blast
  from a b c d show ?thesis by blast
qed

text \<open>
  A segment beyond the safe integers is rounded as a double is: over a table whose record
  has the id \<open>9007199254740992\<close>, the segment \<open>9007199254740993\<close> finds that record.
\<close>

lemma by_id_rounds_to_double:
  "fst (handleEpisodes 0 [''api'', ''episodes'', ''9007199254740993''] []
          \<lparr>characters = [], episodes = [[(''id'', JNum 9007199254740992)]], quotes = []\<rparr>)
     = Inr (sendJSON (Some (JObj [(''id'', JNum 9007199254740992)])) 200)"
  by code_simp

subsection \<open>A character with its quotes\<close>

text \<open>
  C6. For a GET request \<open>/api/characters/:id\<close> (the path as \<^verbatim>\<open>url.parse\<close> returns
  it) whose segment parses to the id of a
  character (the first record of the table with that id, whose \<open>name\<close> is a string, all
  quotes having a string \<open>character\<close>), the answer is status 200 with that record, its
  \<open>quotes\<close> property set to the array of exactly the quotes whose \<open>character\<close> contains the
  name, case-insensitively, in table order; every other property is the record's own.
\<close>

theorem character_with_quotes:
  assumes "httpMethod req = ''GET''"
    and "parsed_as req path q"
    and "path_parts path = [''api'', ''characters'', seg]"
    and "seg \<noteq> ''random''"
    and "parseInt seg = Finite n"
    and "first_with_id (characters s) n i"
    and "getprop (characters s ! i) ''name'' = Some (JStr nm)"
    and "\<forall>qu\<in>set (quotes s). is_string (getprop qu ''character'')"
  shows "\<exists>ob. fst (handleRequest u req s) = Inr (sendJSON (Some (JObj ob)) 200) \<and>
           ob = spread_with (characters s ! i) ''quotes''
                  (JArr (map JObj (filter (quote_names nm) (quotes s)))) \<and>
           getprop ob ''quotes'' = Some (JArr (map JObj (filter (quote_names nm) (quotes s)))) \<and>
           (\<forall>k. k \<noteq> ''quotes'' \<longrightarrow> getprop ob k = getprop (characters s ! i) k)"
proof -
  have "fst (handleCharacters u [''api'', ''characters'', seg] q s)
      = Inr (sendJSON (Some (JObj (spread_with (characters s ! i) ''quotes''
          (JArr (map JObj (filter (quote_names nm) (quotes s))))))) 200)"
    using assms(4-8) by (rule handleCharacters_found)
  then show ?thesis
    using handleRequest_characters[OF assms(1,2), of "[seg]" u s] assms(3)
    by (simp add: getprop_spread_with_same getprop_spread_with_other)
qed

theorem character_with_quotes_witness:
  "fst (handleRequest 0 (get_request ''/api/characters/1'' []) sample_server)
     = Inr (sendJSON (Some (JObj
         [(''id'', JNum 1), (''name'', JStr ''Jerry''),
          (''quotes'', JArr
             [JObj [(''id'', JNum 1), (''character'', JStr ''Jerry Seinfeld''),
                    (''text'', JStr ''Hello, Newman.'')],
              JObj [(''id'', JNum 3), (''character'', JStr ''JERRY''),
                    (''text'', JStr ''Who are these people?'')]])])) 200)"
proof -
  have p: "parseInt ''1'' = Finite 1" by code_simp
  have f: "first_with_id (characters sample_server) 1 0"
    by (simp add: first_with_id_def sample_server_def getprop_def)
  have pa: "parsed_as (get_request ''/api/characters/1'' []) ''/api/characters/1'' []"
    by (simp add: get_request_def parsed_as_def)
  have pp: "path_parts ''/api/characters/1'' = [''api'', ''characters'', ''1'']"
    by (simp add: path_parts_def)
  have nm: "getprop (characters sample_server ! 0) ''name'' = Some (JStr ''Jerry'')"
    by (simp add: sample_server_def getprop_def)
  have qs: "\<forall>qu\<in>set (quotes sample_server). is_string (getprop qu ''character'')"
    by (simp add: sample_server_def getprop_def)
  have m: "httpMethod (get_request ''/api/characters/1'' []) = ''GET''"
    by (simp add: get_request_def)
  have "spread_with (characters sample_server ! 0) ''quotes''
          (JArr (map JObj (filter (quote_names ''Jerry'') (quotes sample_server))))
      = [(''id'', JNum 1), (''name'', JStr ''Jerry''),
          (''quotes'', JArr
             [JObj [(''id'', JNum 1), (''character'', JStr ''Jerry Seinfeld''),
                    (''text'', JStr ''Hello, Newman.'')],
              JObj [(''id'', JNum 3), (''character'', JStr ''JERRY''),
                    (''text'', JStr ''Who are these people?'')]])]"
    by code_simp
  then show ?thesis
    using character_with_quotes [OF m pa pp _ p f nm qs, of 0]
    by auto
qed

subsection \<open>The substring filter and the season filter\<close>

lemma sequence_total:
  "\<forall>x\<in>set xs. \<exists>y. f x = Inr y \<Longrightarrow> \<exists>ys. sequence (map f xs) = Inr ys"
proof (induction xs)
  case Nil
  then show ?case by simp
next
  case (Cons x xs)
  then obtain y ys where "f x = Inr y" "sequence (map f xs) = Inr ys" by auto
  then show ?case by simp
qed

lemma convertible_ToString: "convertible v \<Longrightarrow> \<exists>str. ToString v = Inr str"
proof (induction v)
  case (JArr xs)
  have "\<forall>x\<in>set xs. \<exists>y. (if x = JNull then Inr [] else ToString x) = Inr y"
    using JArr by auto
  then obtain ys where "sequence (map (\<lambda>v. if v = JNull then Inr [] else ToString v) xs) = Inr ys"
    using sequence_total[of xs "\<lambda>v. if v = JNull then Inr [] else ToString v"] by blast
  then show ?case by simp
qed auto

lemma printable_toString: "printable v \<Longrightarrow> \<exists>str. toString v = Inr str"
  using convertible_ToString[of v]
  by (cases v) (auto simp: printable_def toString_def)

lemma value_matches_printable:
  assumes "printable v"
  shows "value_matches (Some (QStr t)) v
     = Inr (\<exists>str. toString v = Inr str \<and> (\<exists>ps ss. toLowerCase str = ps @ toLowerCase t @ ss))"
proof -
  obtain str where "toString v = Inr str" using printable_toString[OF assms] by blast
  then show ?thesis by (simp add: value_matches_def str_includes_iff)
qed

lemma filterByQuery_term:
  assumes "printable_table t" and "word \<noteq> []"
  shows "filterByQuery t (Some (QStr word)) = Inr (filter (matches_term word) t)"
proof -
  have "some_exn (value_matches (Some (QStr word))) (map snd item) = Inr (matches_term word item)"
    if "item \<in> set t" for item
  proof -
    have "\<forall>v\<in>set (map snd item). value_matches (Some (QStr word)) v
        = Inr (\<exists>str. toString v = Inr str \<and> (\<exists>ps ss. toLowerCase str = ps @ toLowerCase word @ ss))"
      using assms(1) that value_matches_printable unfolding printable_table_def by blast
    then show ?thesis
      unfolding matches_term_def by (rule some_exn_total)
  qed
  then have "filter_exn (\<lambda>item. some_exn (value_matches (Some (QStr word))) (map snd item)) t
      = Inr (filter (matches_term word) t)"
    by (intro filter_exn_total) simp
  then show ?thesis using assms(2) by (simp add: filterByQuery_def)
qed

lemma printable_table_filter: "printable_table t \<Longrightarrow> printable_table (filter P t)"
  by (auto simp: printable_table_def)

lemma in_season_code [code]:
  "in_season v ep = strict_eq_num (getprop ep ''season'') (parseInt v)"
  by (auto simp: in_season_def strict_eq_num_def split: jsnum.splits)

lemma matches_term_code [code]:
  "matches_term t item =
     list_ex (\<lambda>v. case toString v of Inl e \<Rightarrow> False
                 | Inr str \<Rightarrow> str_includes (toLowerCase str) (toLowerCase t)) (map snd item)"
proof -
  have "(\<exists>str. toString v = Inr str \<and> (\<exists>ps ss. toLowerCase str = ps @ toLowerCase t @ ss))
      = (case toString v of Inl e \<Rightarrow> False
         | Inr str \<Rightarrow> str_includes (toLowerCase str) (toLowerCase t))" for v
    by (cases "toString v") (auto simp: str_includes_iff)
  then show ?thesis
    unfolding matches_term_def list_ex_iff by simp
qed

text \<open>A repeated search parameter is an array: the filter throws at the first field it meets.\<close>

lemma sequence_Inl: "sequence rs = Inl e \<Longrightarrow> Inl e \<in> set rs"
  by (induction rs) (auto split: sum.splits)

lemma ToString_throws_TypeError: "ToString v = Inl e \<Longrightarrow> e = TypeError"
proof (induction v arbitrary: e)
  case (JArr xs)
  then have "sequence (map (\<lambda>v. if v = JNull then Inr [] else ToString v) xs) = Inl e"
    by (simp split: sum.splits)
  then have "Inl e \<in> set (map (\<lambda>v. if v = JNull then Inr [] else ToString v) xs)"
    by (rule sequence_Inl)
  then obtain x where "x \<in> set xs" "ToString x = Inl e"
    by (auto split: if_splits)
  then show ?case using JArr.IH by blast
qed (auto split: if_splits)

lemma toString_throws_TypeError: "toString v = Inl e \<Longrightarrow> e = TypeError"
  using ToString_throws_TypeError[of v e]
  by (cases v) (auto simp: toString_def)

lemma value_matches_array: "value_matches (Some (QArr ws)) v = Inl TypeError"
proof (cases "toString v")
  case (Inl e)
  then show ?thesis using toString_throws_TypeError[OF Inl] by (simp add: value_matches_def)
next
  case (Inr str)
  then show ?thesis by (simp add: value_matches_def)
qed

lemma some_exn_array:
  "some_exn (value_matches (Some (QArr ws))) vs = (if vs = [] then Inr False else Inl TypeError)"
  by (cases vs) (simp_all add: value_matches_array)

lemma filter_exn_throws:
  assumes "\<forall>x\<in>set xs. f x = Inl TypeError \<or> f x = Inr False"
    and "\<exists>x\<in>set xs. f x = Inl TypeError"
  shows "filter_exn f xs = Inl TypeError"
  using assms
proof (induction xs)
  case Nil
  then show ?case by simp
next
  case (Cons x xs)
  show ?case
  proof (cases "f x = Inl TypeError")
    case True
    then show ?thesis by simp
  next
    case False
    then have fx: "f x = Inr False" using Cons.prems(1) by auto
    have "\<exists>y\<in>set xs. f y = Inl TypeError" using Cons.prems(2) False by auto
    then have "filter_exn f xs = Inl TypeError" using Cons.IH Cons.prems(1) by simp
    then show ?thesis using fx by simp
  qed
qed

lemma filterByQuery_repeated:
  assumes "\<exists>item\<in>set t. item \<noteq> []"
  shows "filterByQuery t (Some (QArr ws)) = Inl TypeError"
proof -
  have "filter_exn (\<lambda>item. some_exn (value_matches (Some (QArr ws))) (map snd item)) t
      = Inl TypeError"
    using assms by (intro filter_exn_throws) (auto simp: some_exn_array)
  then show ?thesis by (simp add: filterByQuery_def)
qed

text \<open>
  C5, as the code has it. For a GET request \<open>/api/episodes\<close> whose \<open>season\<close> parameter is
  not the empty string, the episodes chosen are exactly those whose \<open>season\<close> is the number
  the parameter parses to (none when it does not parse). With no search word they are the
  answer. With a search word given once, over chosen episodes whose fields are printable
  and whose numbers are safe integers, the answer is the chosen episodes that match the
  word: the season filter first, the substring filter on its result. With a repeated
  search parameter the handler throws as soon as a chosen episode has a field.
\<close>

theorem episodes_season_filter:
  assumes "httpMethod req = ''GET''"
    and "parsed_as req path q"
    and "path_parts path = [''api'', ''episodes'']"
    and "truthy (param q ''season'')"
    and "chosen = filter (in_season (qval_ToString (param q ''season''))) (episodes s)"
  shows "(\<not> truthy (param q ''search'') \<longrightarrow>
            fst (handleRequest u req s)
              = Inr (sendJSON (Some (list_body ''episodes'' chosen)) 200)) \<and>
         (param q ''search'' = Some (QStr word) \<and> word \<noteq> [] \<and>
          printable_table chosen \<and> exact_table chosen \<longrightarrow>
            fst (handleRequest u req s)
              = Inr (sendJSON (Some (list_body ''episodes''
                       (filter (matches_term word) chosen))) 200)) \<and>
         (param q ''search'' = Some (QArr ws) \<and> (\<exists>ep\<in>set chosen. ep \<noteq> []) \<longrightarrow>
            fst (handleRequest u req s) = Inl TypeError)"
proof -
  have sub: "filter (\<lambda>ep. strict_eq_num (getprop ep ''season'')
                (parseInt (qval_ToString (param q ''season'')))) (episodes s) = chosen"
    unfolding assms(5) by (rule filter_cong) (simp_all add: in_season_code)
  have "fst (handleEpisodes u [''api'', ''episodes''] q s)
      = (case filterByQuery chosen (param q ''search'') of
           Inl e \<Rightarrow> Inl e
         | Inr found \<Rightarrow> Inr (sendJSON (Some (list_body ''episodes'' found)) 200))"
    using assms(4) sub by (simp add: handleEpisodes_def split: sum.split)
  then have h: "fst (handleRequest u req s)
      = (case filterByQuery chosen (param q ''search'') of
           Inl e \<Rightarrow> Inl e
         | Inr found \<Rightarrow> Inr (sendJSON (Some (list_body ''episodes'' found)) 200))"
    using handleRequest_episodes[OF assms(1,2), of "[]" u s] assms(3) by simp
  have a: "\<not> truthy (param q ''search'') \<Longrightarrow>
      fst (handleRequest u req s) = Inr (sendJSON (Some (list_body ''episodes'' chosen)) 200)"
    using h by (simp add: filterByQuery_def)
  have b: "param q ''search'' = Some (QStr word) \<Longrightarrow> word \<noteq> [] \<Longrightarrow>
      printable_table chosen \<Longrightarrow>
      fst (handleRequest u req s)
        = Inr (sendJSON (Some (list_body ''episodes'' (filter (matches_term word) chosen))) 200)"
    using h filterByQuery_term[of chosen "word"] by simp
  have c: "param q ''search'' = Some (QArr ws) \<Longrightarrow> \<exists>ep\<in>set chosen. ep \<noteq> [] \<Longrightarrow>
      fst (handleRequest u req s) = Inl TypeError"
    using h filterByQuery_repeated[of chosen ws] by simp
  from a b c show ?thesis by blast
qed

text \<open>
  Season 2 chooses two of the three episodes; the word \<open>JACK\<close> keeps one of them; a
  repeated search parameter throws.
\<close>

theorem episodes_season_filter_witness:
  "fst (handleRequest 0 (get_request ''/api/episodes'' [(''season'', QStr ''2'')]) sample_server)
     = Inr (sendJSON (Some (list_body ''episodes''
         [[(''id'', JNum 5), (''season'', JNum 2), (''title'', JStr ''The Jacket'')],
          [(''id'', JNum 16), (''season'', JNum 2),
           (''title'', JStr ''The Chinese Restaurant'')]])) 200) \<and>
   fst (handleRequest 0
          (get_request ''/api/episodes'' [(''season'', QStr ''2''), (''search'', QStr ''JACK'')])
          sample_server)
     = Inr (sendJSON (Some (list_body ''episodes''
         [[(''id'', JNum 5), (''season'', JNum 2), (''title'', JStr ''The Jacket'')]])) 200) \<and>
   fst (handleRequest 0
          (get_request ''/api/episodes''
             [(''season'', QStr ''2''), (''search'', QArr [''a'', ''b''])])
          sample_server)
     = Inl TypeError"
proof -
  let ?two = "[[(''id'', JNum 5), (''season'', JNum 2), (''title'', JStr ''The Jacket'')],
          [(''id'', JNum 16), (''season'', JNum 2),
           (''title'', JStr ''The Chinese Restaurant'')]]"
  let ?q1 = "[(''season'', QStr ''2'')]"
  let ?q2 = "[(''season'', QStr ''2''), (''search'', QStr ''JACK'')]"
  let ?q3 = "[(''season'', QStr ''2''), (''search'', QArr [''a'', ''b''])]"
  have sub: "?two = filter (in_season ''2'') (episodes sample_server)"
    by code_simp
  have pr: "printable_table ?two" "exact_table ?two"
    by code_simp+
  have m: "filter (matches_term ''JACK'') ?two
      = [[(''id'', JNum 5), (''season'', JNum 2), (''title'', JStr ''The Jacket'')]]"
    by code_simp
  have pp: "path_parts ''/api/episodes'' = [''api'', ''episodes'']"
    by (simp add: path_parts_def)
  have g: "httpMethod (get_request ''/api/episodes'' qq) = ''GET''"
    "parsed_as (get_request ''/api/episodes'' qq) ''/api/episodes'' qq" for qq
    by (simp_all add: get_request_def parsed_as_def)
  have s1: "?two = filter (in_season (qval_ToString (param ?q1 ''season''))) (episodes sample_server)"
    "?two = filter (in_season (qval_ToString (param ?q2 ''season''))) (episodes sample_server)"
    "?two = filter (in_season (qval_ToString (param ?q3 ''season''))) (episodes sample_server)"
    using sub by (simp_all add: param_def)
  have a: "fst (handleRequest 0 (get_request ''/api/episodes'' ?q1) sample_server)
     = Inr (sendJSON (Some (list_body ''episodes'' ?two)) 200)"
    using episodes_season_filter [OF g pp _ s1(1), of 0] by (simp add: param_def)
  have b: "fst (handleRequest 0 (get_request ''/api/episodes'' ?q2) sample_server)
     = Inr (sendJSON (Some (list_body ''episodes''
         [[(''id'', JNum 5), (''season'', JNum 2), (''title'', JStr ''The Jacket'')]])) 200)"
    using episodes_season_filter [OF g pp _ s1(2), of 0 "''JACK''"] pr m by (simp add: param_def)
  have c: "fst (handleRequest 0 (get_request ''/api/episodes'' ?q3) sample_server) = Inl TypeError"
    using episodes_season_filter [OF g pp _ s1(3), of 0 _ "[''a'', ''b'']"] by (simp add: param_def)
  from a b c show ?thesis by blast
qed

text \<open>
  With \<open>season\<close> present and empty, as in \<open>/api/episodes?season=\<close>, the season filter is
  skipped: all three episodes are returned, although the parameter parses to no number.
\<close>

theorem empty_season_counterexample:
  "parseInt [] = NaN \<and>
   fst (handleRequest 0 (get_request ''/api/episodes'' [(''season'', QStr [])]) sample_server)
     = Inr (sendJSON (Some (list_body ''episodes'' (episodes sample_server))) 200) \<and>
   length (episodes sample_server) = 3"
  by code_simp

subsection \<open>Statistics\<close>

lemma math_max_from_finite:
  "math_max_from (Finite h) (map Finite ns) = Finite (fold max ns h)"
  by (induction ns arbitrary: h) (simp_all add: max_def)

lemma math_max_finite:
  assumes "ns \<noteq> []"
  shows "math_max (map Finite ns) = Finite (Max (set ns))"
proof -
  obtain k ks where ns: "ns = k # ks" using assms by (cases ns) auto
  have "math_max (map Finite ns) = Finite (fold max ks k)"
    unfolding ns math_max_def by (simp add: math_max_from_finite)
  also have "fold max ks k = Max (set ns)"
    unfolding ns using Max.set_eq_fold[of k ks] by simp
  finally show ?thesis .
qed

lemma sequence_seasons:
  "map (\<lambda>ep. getprop ep ''season'') eps = map (\<lambda>n. Some (JNum n)) ns \<Longrightarrow>
     sequence (map (\<lambda>ep. ToNumber (getprop ep ''season'')) eps) = Inr (map Finite ns)"
proof (induction eps arbitrary: ns)
  case Nil
  then show ?case by simp
next
  case (Cons ep eps)
  then obtain n ns' where ns: "ns = n # ns'" by (cases ns) auto
  with Cons.prems have "getprop ep ''season'' = Some (JNum n)"
    and "map (\<lambda>ep. getprop ep ''season'') eps = map (\<lambda>n. Some (JNum n)) ns'" by auto
  then show ?case using Cons.IH ns by simp
qed

text \<open>
  C7, as the code has it. For a dataset with at least one episode, every episode having a
  number as its \<open>season\<close>, GET \<open>/api/stats\<close> (the path as \<^verbatim>\<open>url.parse\<close> returns it)
  answers with the lengths of the three tables, the greatest \<open>season\<close> of the episodes,
  and the version string \<open>1.0.0\<close>.
\<close>

theorem stats_counts_and_max_season:
  assumes "httpMethod req = ''GET''"
    and "parsed_as req path q"
    and "path_parts path = [''api'', ''stats'']"
    and "episodes s \<noteq> []"
    and "map (\<lambda>ep. getprop ep ''season'') (episodes s) = map (\<lambda>n. Some (JNum n)) ns"
  shows "fst (handleRequest u req s) = Inr (sendJSON (Some (JObj
           [(''totalCharacters'', JNum (int (length (characters s)))),
            (''totalEpisodes'', JNum (int (length (episodes s)))),
            (''totalQuotes'', JNum (int (length (quotes s)))),
            (''seasons'', JNum (Max (set ns))),
            (''apiVersion'', JStr ''1.0.0'')])) 200)"
proof -
  have "ns \<noteq> []" using assms(4,5) by auto
  then have "math_max (map Finite ns) = Finite (Max (set ns))"
    by (rule math_max_finite)
  then show ?thesis
    using handleRequest_stats[OF assms(1,2), of "[]" u s] assms(3) sequence_seasons[OF assms(5)]
    by (simp add: handleStats_def)
qed

theorem stats_counts_and_max_season_witness:
  "fst (handleRequest 0 (get_request ''/api/stats'' []) sample_server) = Inr (sendJSON (Some (JObj
           [(''totalCharacters'', JNum 2),
            (''totalEpisodes'', JNum 3),
            (''totalQuotes'', JNum 3),
            (''seasons'', JNum 2),
            (''apiVersion'', JStr ''1.0.0'')])) 200)"
proof -
  have m: "map (\<lambda>ep. getprop ep ''season'') (episodes sample_server)
      = map (\<lambda>n. Some (JNum n)) [1, 2, 2]"
    by (simp add: sample_server_def getprop_def)
  have l: "length (characters sample_server) = 2" "length (episodes sample_server) = 3"
    "length (quotes sample_server) = 3" "episodes sample_server \<noteq> []"
    by (simp_all add: sample_server_def)
  show ?thesis
    using stats_counts_and_max_season
      [of "get_request ''/api/stats'' []" "''/api/stats''" "[]" sample_server "[1, 2, 2]" 0] m l
    by (simp add: get_request_def parsed_as_def path_parts_def)
qed

text \<open>
  With no episode there is no greatest season: \<^verbatim>\<open>Math.max()\<close> is \<open>-Infinity\<close>, which the
  answer prints as \<^verbatim>\<open>null\<close>.
\<close>

theorem stats_no_episodes_counterexample:
  "fst (handleRequest 0 (get_request ''/api/stats'' []) empty_server) = Inr (sendJSON (Some (JObj
           [(''totalCharacters'', JNum 0),
            (''totalEpisodes'', JNum 0),
            (''totalQuotes'', JNum 0),
            (''seasons'', JNull),
            (''apiVersion'', JStr ''1.0.0'')])) 200)"
  by code_simp

text \<open>That holds of every dataset without episodes.\<close>

lemma stats_without_episodes:
  assumes "httpMethod req = ''GET''"
    and "parsed_as req path q"
    and "path_parts path = [''api'', ''stats'']"
    and "episodes s = []"
  shows "fst (handleRequest u req s) = Inr (sendJSON (Some (JObj
           [(''totalCharacters'', JNum (int (length (characters s)))),
            (''totalEpisodes'', JNum 0),
            (''totalQuotes'', JNum (int (length (quotes s)))),
            (''seasons'', JNull),
            (''apiVersion'', JStr ''1.0.0'')])) 200)"
  using handleRequest_stats[OF assms(1,2), of "[]" u s] assms(3,4)
  by (simp add: handleStats_def math_max_def)

subsection \<open>Every request is answered\<close>

lemma getRandomItem_Some:
  assumes "0 \<le> u" and "u < 1" and "xs \<noteq> []"
  shows "\<exists>x. getRandomItem u xs = Some x"
proof -
  let ?n = "length xs"
  have n: "0 < ?n" using assms(3) by simp
  have "0 \<le> u * of_nat ?n" using assms(1) by simp
  then have lo: "0 \<le> \<lfloor>u * of_nat ?n\<rfloor>" by simp
  have "u * of_nat ?n < of_nat ?n" using assms(2) n by simp
  then have "\<lfloor>u * of_nat ?n\<rfloor> < int ?n"
    by (simp add: floor_less_iff)
  with lo show ?thesis by (simp add: getRandomItem_def Let_def)
qed

lemma filterByQuery_ok:
  assumes "printable_table t" and "single_valued p"
  shows "\<exists>xs. filterByQuery t p = Inr xs"
proof (cases p)
  case None
  then show ?thesis by (simp add: filterByQuery_def)
next
  case (Some v)
  show ?thesis
  proof (cases v)
    case (QStr w)
    then show ?thesis
      using Some filterByQuery_term[OF assms(1), of w]
      by (cases "w = []") (simp_all add: filterByQuery_def)
  next
    case (QArr ss)
    then show ?thesis using Some assms(2) by simp
  qed
qed

lemma printable_table_subset:
  "printable_table t \<Longrightarrow> set xs \<subseteq> set t \<Longrightarrow> printable_table xs"
  by (auto simp: printable_table_def)

lemma quotes_filter_ok:
  assumes "\<forall>q\<in>set qs. is_string (getprop q ''character'')"
    and "single_valued p" and "truthy p"
  shows "\<exists>xs. filter_exn (quote_by_param p) qs = Inr xs \<and> set xs \<subseteq> set qs"
proof -
  obtain c where p: "p = Some (QStr c)"
    using assms(2,3) by (cases p rule: single_valued.cases) auto
  have "\<forall>q\<in>set qs. quote_by_param p q = Inr (quote_names c q)"
    using assms(1) unfolding p
    by (auto simp: is_string_iff quote_by_param_def quote_names_def str_includes_iff)
  then have "filter_exn (quote_by_param p) qs = Inr (filter (quote_names c) qs)"
    by (rule filter_exn_total)
  then show ?thesis by auto
qed

lemma seasons_numbers:
  "\<forall>ep\<in>set eps. is_number (getprop ep ''season'') \<Longrightarrow>
     \<exists>ns. map (\<lambda>ep. getprop ep ''season'') eps = map (\<lambda>n. Some (JNum n)) ns"
proof (induction eps)
  case Nil
  then show ?case by simp
next
  case (Cons ep eps)
  then obtain ns where ns: "map (\<lambda>ep. getprop ep ''season'') eps = map (\<lambda>n. Some (JNum n)) ns"
    by auto
  obtain n where "getprop ep ''season'' = Some (JNum n)"
    using Cons.prems by (auto simp: is_number_iff)
  with ns have "map (\<lambda>ep. getprop ep ''season'') (ep # eps) = map (\<lambda>n. Some (JNum n)) (n # ns)"
    by simp
  then show ?case by blast
qed

lemma answered_ok:
  "answered pp s (Inr (sendJSON (Some b) 200))"
  by (simp add: answered_def sendJSON_def)

lemma answered_error:
  "c = 400 \<or> c = 404 \<Longrightarrow> answered pp s (Inr (sendError msg c))"
  by (auto simp: answered_def sendJSON_def sendError_def)

lemma answered_random:
  assumes "0 \<le> u" and "u < 1"
    and "t = [] \<longrightarrow> (pp = [''api'', ''characters'', ''random''] \<and> characters s = []) \<or>
            (pp = [''api'', ''episodes'', ''random''] \<and> episodes s = []) \<or>
            (pp = [''api'', ''quotes'', ''random''] \<and> quotes s = [])"
  shows "answered pp s (Inr (sendJSON (map_option JObj (getRandomItem u t)) 200))"
proof (cases "t = []")
  case True
  then show ?thesis using assms(3) by (simp add: answered_def sendJSON_def)
next
  case False
  then obtain x where "getRandomItem u t = Some x"
    using getRandomItem_Some[OF assms(1,2)] by blast
  then show ?thesis by (simp add: answered_ok)
qed

lemma three_parts:
  assumes "pp = a # b # rest" and "length pp = 3" and "pp ! 2 = c"
  shows "pp = [a, b, c]"
  using assms by (cases rest) auto

lemma handleCharacters_answered:
  assumes "conforms s" and "single_valued (param q ''search'')"
    and "0 \<le> u" and "u < 1" and "pp = ''api'' # ''characters'' # rest"
  shows "answered pp s (fst (handleCharacters u pp q s))"
proof -
  have pt: "printable_table (characters s)" using assms(1) by (simp add: conforms_def)
  consider (list) "length pp = 2"
    | (random) "length pp = 3" "pp ! 2 = ''random''"
    | (byid) "length pp = 3" "pp ! 2 \<noteq> ''random''"
    | (other) "length pp \<noteq> 2" "length pp \<noteq> 3" by blast
  then show ?thesis
  proof cases
    case list
    obtain xs where "filterByQuery (characters s) (param q ''search'') = Inr xs"
      using filterByQuery_ok[OF pt assms(2)] by blast
    then show ?thesis using list by (simp add: handleCharacters_def answered_ok)
  next
    case random
    have "pp = [''api'', ''characters'', ''random'']"
      using three_parts[OF assms(5) random] .
    then have "answered pp s (Inr (sendJSON (map_option JObj (getRandomItem u (characters s))) 200))"
      by (intro answered_random[OF assms(3,4)]) simp
    then show ?thesis using random by (simp add: handleCharacters_def)
  next
    case byid
    show ?thesis
    proof (cases "find (\<lambda>c. strict_eq_num (getprop c ''id'') (parseInt (pp ! 2))) (characters s)")
      case None
      then show ?thesis using byid by (simp add: handleCharacters_def answered_error)
    next
      case (Some c)
      then have "c \<in> set (characters s)" by (auto simp: find_Some_iff)
      then obtain nm where nm: "getprop c ''name'' = Some (JStr nm)"
        using assms(1) by (auto simp: conforms_def is_string_iff)
      have "\<forall>q\<in>set (quotes s). quote_of_character (Some (JStr nm)) q = Inr (quote_names nm q)"
        using assms(1) by (simp add: conforms_def quote_of_character_string)
      then have "filter_exn (quote_of_character (Some (JStr nm))) (quotes s)
          = Inr (filter (quote_names nm) (quotes s))"
        by (rule filter_exn_total)
      then show ?thesis using byid Some nm by (simp add: handleCharacters_def answered_ok)
    qed
  next
    case other
    then show ?thesis by (simp add: handleCharacters_def answered_error)
  qed
qed

lemma handleEpisodes_answered:
  assumes "conforms s" and "single_valued (param q ''search'')"
    and "0 \<le> u" and "u < 1" and "pp = ''api'' # ''episodes'' # rest"
  shows "answered pp s (fst (handleEpisodes u pp q s))"
proof -
  have pt: "printable_table (episodes s)" using assms(1) by (simp add: conforms_def)
  consider (list) "length pp = 2"
    | (random) "length pp = 3" "pp ! 2 = ''random''"
    | (byid) "length pp = 3" "pp ! 2 \<noteq> ''random''"
    | (other) "length pp \<noteq> 2" "length pp \<noteq> 3" by blast
  then show ?thesis
  proof cases
    case list
    have "\<exists>xs. filterByQuery (if truthy (param q ''season'')
                then filter (\<lambda>ep. strict_eq_num (getprop ep ''season'')
                                     (parseInt (qval_ToString (param q ''season''))))
                            (episodes s)
                else episodes s) (param q ''search'') = Inr xs"
      using pt assms(2) by (intro filterByQuery_ok) (simp_all add: printable_table_filter)
    then show ?thesis using list by (auto simp: handleEpisodes_def answered_ok)
  next
    case random
    have "pp = [''api'', ''episodes'', ''random'']"
      using three_parts[OF assms(5) random] .
    then have "answered pp s (Inr (sendJSON (map_option JObj (getRandomItem u (episodes s))) 200))"
      by (intro answered_random[OF assms(3,4)]) simp
    then show ?thesis using random by (simp add: handleEpisodes_def)
  next
    case byid
    then show ?thesis
      by (simp add: handleEpisodes_def answered_ok answered_error split: option.split)
  next
    case other
    then show ?thesis by (simp add: handleEpisodes_def answered_error)
  qed
qed

lemma handleQuotes_answered:
  assumes "conforms s" and "single_valued (param q ''search'')"
    and "single_valued (param q ''character'')"
    and "0 \<le> u" and "u < 1" and "pp = ''api'' # ''quotes'' # rest"
  shows "answered pp s (fst (handleQuotes u pp q s))"
proof -
  have pt: "printable_table (quotes s)" using assms(1) by (simp add: conforms_def)
  consider (list) "length pp = 2"
    | (random) "length pp = 3" "pp ! 2 = ''random''"
    | (byid) "length pp = 3" "pp ! 2 \<noteq> ''random''"
    | (other) "length pp \<noteq> 2" "length pp \<noteq> 3" by blast
  then show ?thesis
  proof cases
    case list
    have "\<exists>xs. (if truthy (param q ''character'')
               then filter_exn (quote_by_param (param q ''character'')) (quotes s)
               else Inr (quotes s)) = Inr xs \<and> set xs \<subseteq> set (quotes s)"
      using quotes_filter_ok[of "quotes s" "param q ''character''"] assms(1,3)
      by (auto simp: conforms_def)
    then obtain xs where xs: "(if truthy (param q ''character'')
               then filter_exn (quote_by_param (param q ''character'')) (quotes s)
               else Inr (quotes s)) = Inr xs" "set xs \<subseteq> set (quotes s)" by blast
    then obtain ys where "filterByQuery xs (param q ''search'') = Inr ys"
      using filterByQuery_ok[OF printable_table_subset[OF pt xs(2)] assms(2)] by blast
    then show ?thesis using list xs(1) by (simp add: handleQuotes_def answered_ok)
  next
    case random
    have "pp = [''api'', ''quotes'', ''random'']"
      using three_parts[OF assms(6) random] .
    then have "answered pp s (Inr (sendJSON (map_option JObj (getRandomItem u (quotes s))) 200))"
      by (intro answered_random[OF assms(4,5)]) simp
    then show ?thesis using random by (simp add: handleQuotes_def)
  next
    case byid
    then show ?thesis
      by (simp add: handleQuotes_def answered_ok answered_error split: option.split)
  next
    case other
    then show ?thesis by (simp add: handleQuotes_def answered_error)
  qed
qed

lemma handleStats_answered:
  assumes "conforms s"
  shows "answered pp s (fst (handleStats s))"
proof -
  obtain ns where "map (\<lambda>ep. getprop ep ''season'') (episodes s) = map (\<lambda>n. Some (JNum n)) ns"
    using seasons_numbers[of "episodes s"] assms by (auto simp: conforms_def)
  then show ?thesis
    using sequence_seasons by (simp add: handleStats_def answered_ok)
qed

lemma handleRequest_root:
  assumes "httpMethod req = ''GET''" and "parsed_as req path q" and "path_parts path = []"
  shows "handleRequest u req s = respond (sendJSON (Some documentation) 200) s"
  using assms by (simp add: handleRequest_def parsed_as_def)

lemma handleRequest_answered:
  assumes "httpMethod req = ''GET''" and "parsed_as req path q" and "conforms s"
    and "single_valued (param q ''search'')"
    and "single_valued (param q ''character'')"
    and "0 \<le> u" and "u < 1"
  shows "answered (path_parts path) s (fst (handleRequest u req s))"
proof (cases "path_parts path")
  case Nil
  then show ?thesis
    using handleRequest_root[OF assms(1,2), of u s] by (simp add: answered_ok)
next
  case (Cons p ps)
  show ?thesis
  proof (cases "p = ''api''")
    case False
    then show ?thesis
      using handleRequest_not_api[OF assms(1,2) Cons, of u s] by (simp add: answered_error)
  next
    case True
    show ?thesis
    proof (cases ps)
      case Nil
      then show ?thesis
        using handleRequest_api_alone[OF assms(1,2), of u s] Cons True
        by (simp add: answered_error)
    next
      case (Cons e rest)
      have pp: "path_parts path = ''api'' # e # rest"
        using \<open>path_parts path = p # ps\<close> True Cons by simp
      consider (c) "e = ''characters''" | (e) "e = ''episodes''" | (q) "e = ''quotes''"
        | (s) "e = ''stats''"
        | (n) "e \<noteq> ''characters''" "e \<noteq> ''episodes''" "e \<noteq> ''quotes''" "e \<noteq> ''stats''"
        by blast
      then show ?thesis
      proof cases
        case c
        then show ?thesis
          using handleRequest_characters[OF assms(1,2), of rest u s] pp
            handleCharacters_answered[OF assms(3,4,6,7), of "path_parts path" rest]
          by simp
      next
        case e
        then show ?thesis
          using handleRequest_episodes[OF assms(1,2), of rest u s] pp
            handleEpisodes_answered[OF assms(3,4,6,7), of "path_parts path" rest]
          by simp
      next
        case q
        then show ?thesis
          using handleRequest_quotes[OF assms(1,2), of rest u s] pp
            handleQuotes_answered[OF assms(3,4,5,6,7), of "path_parts path" rest]
          by simp
      next
        case s
        then show ?thesis
          using handleRequest_stats[OF assms(1,2), of rest u s] pp
            handleStats_answered[OF assms(3), of "path_parts path"]
          by simp
      next
        case n
        then show ?thesis
          using handleRequest_unknown_endpoint[OF assms(1,2) pp, of u s]
          by (simp add: answered_error)
      qed
    qed
  qed
qed

text \<open>
  Before anything else \<^verbatim>\<open>handleRequest\<close> parses the URL: an exception of \<^verbatim>\<open>url.parse\<close>
  leaves the handler as it is, and a parsed URL without a path name makes the next statement
  throw. Neither is caught, whatever the method.
\<close>

lemma url_parse_throws:
  "url_parse req = Inl e \<Longrightarrow> handleRequest u req s = (Inl e, s)"
  by (simp add: handleRequest_def throw_def)

lemma null_pathname_throws:
  "url_parse req = Inr parsedUrl \<Longrightarrow> pathname parsedUrl = None \<Longrightarrow>
     handleRequest u req s = (Inl TypeError, s)"
  by (simp add: handleRequest_def throw_def)

text \<open>
  C3, as the code has it. The module catches no exception, so the claim holds on the
  inputs on which none is thrown. For a dataset that follows the data model (no field is
  \<^verbatim>\<open>null\<close> or unprintable, names and quote characters are strings, seasons are numbers) and
  a GET request whose URL \<^verbatim>\<open>url.parse\<close> parses, returning a path name, and whose \<open>search\<close>
  and \<open>character\<close> parameters are not repeated, the request is answered: with status 200,
  or with status 400 or 404 and a body \<open>{error: message}\<close>. The body is missing only on
  a \<open>random\<close> route over an empty table, with status 200.
\<close>

theorem handleRequest_answers:
  assumes "httpMethod req = ''GET''" and "parsed_as req path q" and "conforms s"
    and "single_valued (param q ''search'')"
    and "single_valued (param q ''character'')"
    and "0 \<le> u" and "u < 1"
  shows "\<exists>r. fst (handleRequest u req s) = Inr r \<and>
           (status r = 200 \<or>
            ((status r = 400 \<or> status r = 404) \<and>
             (\<exists>msg. body r = Some (JObj [(''error'', JStr msg)])))) \<and>
           (body r = None \<longrightarrow>
              status r = 200 \<and>
              ((path_parts path = [''api'', ''characters'', ''random''] \<and>
                characters s = []) \<or>
               (path_parts path = [''api'', ''episodes'', ''random''] \<and>
                episodes s = []) \<or>
               (path_parts path = [''api'', ''quotes'', ''random''] \<and>
                quotes s = [])))"
  using handleRequest_answered[OF assms] unfolding answered_def .

theorem handleRequest_answers_witness:
  "\<exists>r. fst (handleRequest (1 / 2)
              (get_request ''/api/quotes'' [(''character'', QStr ''jerry''), (''search'', QStr ''PEOPLE'')])
              sample_server) = Inr r \<and>
        status r = 200 \<and>
        body r = Some (list_body ''quotes''
          [[(''id'', JNum 3), (''character'', JStr ''JERRY''),
            (''text'', JStr ''Who are these people?'')]])"
proof -
  let ?req = "get_request ''/api/quotes'' [(''character'', QStr ''jerry''), (''search'', QStr ''PEOPLE'')]"
  have c: "conforms sample_server" by code_simp
  let ?q = "[(''character'', QStr ''jerry''), (''search'', QStr ''PEOPLE'')]"
  have m: "httpMethod ?req = ''GET''" by (simp add: get_request_def)
  have pa: "parsed_as ?req ''/api/quotes'' ?q" by (simp add: get_request_def parsed_as_def)
  have s1: "single_valued (param ?q ''search'')"
    by (simp add: param_def)
  have s2: "single_valued (param ?q ''character'')"
    by (simp add: param_def)
  have v: "fst (handleRequest (1 / 2) ?req sample_server)
      = Inr (sendJSON (Some (list_body ''quotes''
          [[(''id'', JNum 3), (''character'', JStr ''JERRY''),
            (''text'', JStr ''Who are these people?'')]])) 200)"
    by code_simp
  show ?thesis
    using handleRequest_answers [OF m pa c s1 s2, of "1 / 2"] v
    by (auto simp: sendJSON_def)
qed

text \<open>
  A repeated parameter, as in \<open>/api/characters?search=a&search=b\<close>, reaches the filter as
  an array, which has no \<open>toLowerCase\<close>: the handler throws and nothing is sent.
\<close>

theorem repeated_search_counterexample:
  "fst (handleRequest 0
          (get_request ''/api/characters'' [(''search'', QArr [''a'', ''b''])])
          sample_server) = Inl TypeError"
  by code_simp

text \<open>
  The two other ways out of the uniform shape: a \<^verbatim>\<open>null\<close> field met by the search filter
  throws, and a random pick from an empty table is sent as an empty body.
\<close>

lemma null_field_throws:
  "fst (handleRequest 0 (get_request ''/api/characters'' [(''search'', QStr ''kramer'')])
          null_field_server) = Inl TypeError"
  by code_simp

lemma random_on_empty_table:
  "fst (handleRequest 0 (get_request ''/api/quotes/random'' []) empty_server)
     = Inr (sendJSON None 200)"
  by code_simp

end
